theory Spec2Isabelle
  imports Complex_Main
begin

section \<open>Errors, tensors and observations\<close>

text \<open>
  A shallow embedding of \<^verbatim>\<open>mod/agents/sqil.py\<close>, the SQIL agent.

  Tensors of floats are lists of reals, and the arithmetic on them is exact, except
  where a property depends on rounding: the comparison of the reward-based sampler and
  the rounded soft value round every operation as the source's floating-point types do.
  Where torch would produce NaN without raising (the mean of an empty batch), the model
  returns \<open>Inl NotANumber\<close>. Every exception of the source is a value \<open>Inl e\<close>.
\<close>

datatype error =
    AssertionError
  | ValueError
  | IndexError
  | ZeroDivisionError
  | KeyError
  | AttributeError
  | TypeError
  | RuntimeError
  | NotANumber

text \<open>An observation is a channel-major array, read by \<^verbatim>\<open>np.array(ob)[-1, 0, 0]\<close>.\<close>

type_synonym obs = "real list list list"

definition bind_err :: "error + 'a \<Rightarrow> ('a \<Rightarrow> error + 'b) \<Rightarrow> error + 'b" where
  "bind_err m f = (case m of Inl e \<Rightarrow> Inl e | Inr x \<Rightarrow> f x)"

section \<open>Floating-point rounding\<close>

text \<open>
  Where a property depends on rounding, the floating-point operations of the source are
  modelled by rounding the exact result to the nearest number with a significand of
  \<open>p\<close> bits, ties to even: 24 bits for torch's default \<^verbatim>\<open>float32\<close>, 53 bits for numpy's
  default \<^verbatim>\<open>float64\<close>. The exponent range is not bounded: overflow, subnormal numbers,
  infinities and NaN are outside this model.
\<close>

definition nearest_even :: "real \<Rightarrow> int" where
  "nearest_even m =
     (let f = \<lfloor>m\<rfloor>
      in if m - of_int f < 1 / 2 then f
         else if 1 / 2 < m - of_int f then f + 1
         else if even f then f else f + 1)"

definition round_to :: "nat \<Rightarrow> real \<Rightarrow> real" where
  "round_to p x =
     (if x = 0 then 0
      else let ulp = 2 powr (of_int \<lfloor>log 2 \<bar>x\<bar>\<rfloor> - real p + 1)
           in of_int (nearest_even (x / ulp)) * ulp)"

definition float32 :: "real \<Rightarrow> real" where
  "float32 = round_to 24"

definition float64 :: "real \<Rightarrow> real" where
  "float64 = round_to 53"

section \<open>Value losses\<close>

text \<open>
  \<^verbatim>\<open>F.smooth_l1_loss\<close> (with its default \<^verbatim>\<open>beta = 1\<close>) and \<^verbatim>\<open>F.mse_loss\<close> of torch,
  element by element, and their reductions.
\<close>

definition smooth_l1_loss :: "real \<Rightarrow> real \<Rightarrow> real" where
  "smooth_l1_loss y t = (if \<bar>y - t\<bar> < 1 then (y - t)\<^sup>2 / 2 else \<bar>y - t\<bar> - 1 / 2)"

definition mse_loss :: "real \<Rightarrow> real \<Rightarrow> real" where
  "mse_loss y t = (y - t)\<^sup>2"

definition reduction :: "string \<Rightarrow> real list \<Rightarrow> error + real" where
  "reduction batch_accumulator losses =
     (if batch_accumulator = ''mean''
      then (if losses = [] then Inl NotANumber
            else Inr (sum_list losses / real (length losses)))
      else Inr (sum_list losses))"

definition compute_value_loss :: "real list \<Rightarrow> real list \<Rightarrow> bool \<Rightarrow> string \<Rightarrow> error + real" where
  "compute_value_loss y t clip_delta batch_accumulator =
     (if \<not> (batch_accumulator = ''mean'' \<or> batch_accumulator = ''sum'') then Inl AssertionError
      else if length y \<noteq> length t then Inl RuntimeError
      else if clip_delta
        then reduction batch_accumulator (map2 smooth_l1_loss y t)
        else bind_err (reduction batch_accumulator (map2 mse_loss y t)) (\<lambda>l. Inr (l / 2)))"

definition compute_weighted_value_loss ::
  "real list \<Rightarrow> real list \<Rightarrow> real list \<Rightarrow> bool \<Rightarrow> string \<Rightarrow> error + real" where
  "compute_weighted_value_loss y t weights clip_delta batch_accumulator =
     (if \<not> (batch_accumulator = ''mean'' \<or> batch_accumulator = ''sum'') then Inl AssertionError
      else if length y \<noteq> length t then Inl RuntimeError
      else
        let losses = (if clip_delta then map2 smooth_l1_loss y t
                      else map (\<lambda>l. l / 2) (map2 mse_loss y t))
        in if length weights \<noteq> length losses then Inl RuntimeError
           else
             let loss_sum = sum_list (map2 (*) losses weights)
             in if batch_accumulator = ''mean''
                then (if y = [] then Inl NotANumber else Inr (loss_sum / real (length y)))
                else Inr loss_sum)"

section \<open>Transitions and batches\<close>

record transition =
  state :: obs
  action :: nat
  reward :: real
  next_state :: obs
  next_action :: "nat option"
  is_state_terminal :: bool
  weight :: "real option"

text \<open>
  The dict of column tensors built by \<^verbatim>\<open>batch_experiences\<close>, one row per sampled
  transition; \<open>batch_terminal\<close> holds 1 for a terminal transition and 0 otherwise.
\<close>

record exp_batch =
  batch_state :: "obs list"
  batch_actions :: "nat list"
  batch_rewards :: "real list"
  batch_next_state :: "obs list"
  batch_terminal :: "real list"
  discount :: "real list"
  weights :: "real list option"

section \<open>Networks\<close>

text \<open>
  A network is its parameter vector and its train/eval flag; its architecture is the
  forward function \<open>q_function\<close> kept by the agent, from parameters and a state to the
  row of Q-values, one per action.
\<close>

record network =
  params :: "real list"
  net_training :: bool

section \<open>The soft Bellman target\<close>

definition next_q_max :: "real list \<Rightarrow> real" where
  "next_q_max q_values = Max (set q_values)"

definition next_q_soft :: "real list \<Rightarrow> real" where
  "next_q_soft q_values =
     next_q_max q_values
     + ln (sum_list (map (\<lambda>q. exp (q - next_q_max q_values)) q_values))"

text \<open>
  The same soft value with the result of every tensor operation rounded by \<open>rnd\<close>, the
  sum taken from left to right. With \<open>rnd = float32\<close> this is what torch computes on its
  default tensors; with no rounding it is \<open>next_q_soft\<close>.
\<close>

definition rounded_next_q_soft :: "(real \<Rightarrow> real) \<Rightarrow> real list \<Rightarrow> real" where
  "rounded_next_q_soft rnd q_values =
     (let m = next_q_max q_values;
          exps = map (\<lambda>q. rnd (exp (rnd (q - m)))) q_values;
          total = foldl (\<lambda>s x. rnd (s + x)) 0 exps
      in rnd (m + rnd (ln total)))"

text \<open>
  \<^verbatim>\<open>SQIL._compute_target_values\<close>, given the target network's forward function.
  Reducing a row with no action raises in torch; columns of different lengths do not
  combine.
\<close>

definition compute_target_values :: "(obs \<Rightarrow> real list) \<Rightarrow> exp_batch \<Rightarrow> error + real list" where
  "compute_target_values target_model exp_batch =
     (let target_next_qout = map target_model (batch_next_state exp_batch)
      in if [] \<in> set target_next_qout then Inl IndexError
         else
           let soft = map next_q_soft target_next_qout;
               n = length soft
           in if length (batch_rewards exp_batch) = n
                 \<and> length (batch_terminal exp_batch) = n
                 \<and> length (discount exp_batch) = n
              then Inr (map (\<lambda>i. batch_rewards exp_batch ! i
                                + discount exp_batch ! i
                                  * (1 - batch_terminal exp_batch ! i) * soft ! i) [0..<n])
              else Inl RuntimeError)"

section \<open>Collaborators of the sampler: the expert dataset and pfrl's replay buffer\<close>

text \<open>
  One draw of \<^verbatim>\<open>expert_dataset.sample()\<close>: \<^verbatim>\<open>(ob, act, _, next_ob, done)\<close>. The dataset
  is a stream of draws and a cursor; each call returns the draw under the cursor and
  advances it.
\<close>

record demo =
  demo_ob :: obs
  demo_act :: nat
  demo_next_ob :: obs
  demo_done :: bool

record dataset =
  draws :: "nat \<Rightarrow> demo"
  cursor :: nat

definition dataset_sample :: "dataset \<Rightarrow> demo \<times> dataset" where
  "dataset_sample ds = (draws ds (cursor ds), ds\<lparr>cursor := Suc (cursor ds)\<rparr>)"

text \<open>
  \<^verbatim>\<open>pfrl.replay_buffers.ReplayBuffer(capacity, 1)\<close>, the bounded FIFO bucket of the
  sampler, is a collaborator outside the repository. Its contract: \<^verbatim>\<open>append\<close> stores the
  transition as a one-step entry and evicts the oldest entry beyond the capacity;
  \<^verbatim>\<open>sample(n)\<close> asserts that \<open>n\<close> entries are held and returns \<open>n\<close> entries at distinct
  positions, chosen at random. The random choice is driven by a stream of naturals.
\<close>

record replay_buffer =
  capacity :: "nat option"
  memory :: "transition list list"

definition rbuf_append :: "replay_buffer \<Rightarrow> transition \<Rightarrow> replay_buffer" where
  "rbuf_append rbuf tr =
     (let m = memory rbuf @ [[tr]]
      in rbuf\<lparr>memory := (case capacity rbuf of None \<Rightarrow> m
                                | Some c \<Rightarrow> drop (length m - c) m)\<rparr>)"

fun sample_distinct :: "(nat \<Rightarrow> nat) \<Rightarrow> 'a list \<Rightarrow> nat \<Rightarrow> 'a list" where
  "sample_distinct rnd xs 0 = []"
| "sample_distinct rnd xs (Suc k) =
     (if xs = [] then []
      else let i = rnd k mod length xs
           in xs ! i # sample_distinct rnd (take i xs @ drop (Suc i) xs) k)"

definition rbuf_sample ::
  "(nat \<Rightarrow> nat) \<Rightarrow> replay_buffer \<Rightarrow> nat \<Rightarrow> error + transition list list" where
  "rbuf_sample rnd rbuf num_experiences =
     (if length (memory rbuf) < num_experiences then Inl AssertionError
      else Inr (sample_distinct rnd (memory rbuf) num_experiences))"

section \<open>RewardBasedSampler\<close>

record sampler =
  rbs_expert_dataset :: dataset
  rbs_reward_boundaries :: "real list"
  replay_buffers :: "replay_buffer list"
  rbs_reward_scale :: real
  rng :: "nat \<Rightarrow> nat"
  rng_pos :: nat

text \<open>
  \<^verbatim>\<open>np.array(ob)[-1, 0, 0]\<close>: the first entry of the first row of the last channel.
  numpy builds the array only from channels of one height and rows of one width, and the
  index needs all three dimensions to be non-empty.
\<close>

definition rectangular :: "obs \<Rightarrow> bool" where
  "rectangular ob \<longleftrightarrow>
     list_all (\<lambda>channel. length channel = length (hd ob)
                 \<and> list_all (\<lambda>row. length row = length (hd (hd ob))) channel) ob"

definition cum_reward :: "obs \<Rightarrow> error + real" where
  "cum_reward ob =
     (if \<not> rectangular ob then Inl ValueError
      else if ob = [] then Inl IndexError
      else if last ob = [] then Inl IndexError
      else if hd (last ob) = [] then Inl IndexError
      else Inr (hd (hd (last ob))))"

text \<open>
  One comparison of \<^verbatim>\<open>cum_reward > reward_boundaries / reward_boundaries[-1] - 1e-8\<close>,
  on a \<^verbatim>\<open>float64\<close> array of boundaries: the quotient, the constant \<^verbatim>\<open>1e-8\<close> and the
  difference are rounded, the comparison is exact. numpy does not raise on a zero
  divisor: the quotient is \<open>+inf\<close>, \<open>-inf\<close> or \<open>nan\<close> by the sign of the boundary, and
  only \<open>-inf\<close> lies below the cumulative reward.
\<close>

definition threshold :: "real \<Rightarrow> real \<Rightarrow> real" where
  "threshold final b = float64 (float64 (b / final) - float64 (1 / 10 ^ 8))"

definition exceeds :: "real \<Rightarrow> real \<Rightarrow> real \<Rightarrow> bool" where
  "exceeds c final b = (if final = 0 then b < 0 else c > threshold final b)"

definition policy_index :: "real list \<Rightarrow> obs \<Rightarrow> error + nat" where
  "policy_index reward_boundaries ob =
     bind_err (cum_reward ob) (\<lambda>c.
       if reward_boundaries = [] then Inl IndexError
       else Inr (length (filter (exceeds c (last reward_boundaries)) reward_boundaries)))"

fun update_buffer :: "nat \<Rightarrow> sampler \<Rightarrow> error + sampler" where
  "update_buffer 0 s = Inr s"
| "update_buffer (Suc n) s =
     (let (d, ds) = dataset_sample (rbs_expert_dataset s)
      in bind_err (policy_index (rbs_reward_boundaries s) (demo_ob d)) (\<lambda>k.
           if length (replay_buffers s) \<le> k then Inl IndexError
           else update_buffer n
             (s\<lparr>rbs_expert_dataset := ds,
                replay_buffers := (replay_buffers s)
                  [k := rbuf_append (replay_buffers s ! k)
                     \<lparr>state = demo_ob d, action = demo_act d, reward = rbs_reward_scale s,
                      next_state = demo_next_ob d, next_action = None,
                      is_state_terminal = demo_done d, weight = None\<rparr>]\<rparr>)))"

text \<open>
  The filling loop of \<^verbatim>\<open>RewardBasedSampler.__init__\<close>: while some bucket is short of
  \<open>max_buffer_size\<close>, draw \<open>max_buffer_size\<close> more. The loop does not end when the dataset
  never yields an observation of some bucket; not returning is the value \<open>None\<close>.
\<close>

partial_function (option) fill_buffers :: "nat \<Rightarrow> sampler \<Rightarrow> (error + sampler) option" where
  "fill_buffers max_buffer_size s =
     (if list_ex (\<lambda>rbuf. length (memory rbuf) < max_buffer_size) (replay_buffers s)
      then (case update_buffer max_buffer_size s of
              Inl e \<Rightarrow> Some (Inl e)
            | Inr s' \<Rightarrow> fill_buffers max_buffer_size s')
      else Some (Inr s))"

definition RewardBasedSampler ::
  "dataset \<Rightarrow> real list \<Rightarrow> nat \<Rightarrow> real \<Rightarrow> (nat \<Rightarrow> nat) \<Rightarrow> (error + sampler) option" where
  "RewardBasedSampler expert_dataset reward_boundaries max_buffer_size r rnd =
     fill_buffers max_buffer_size
       \<lparr>rbs_expert_dataset = expert_dataset,
        rbs_reward_boundaries = reward_boundaries,
        replay_buffers = replicate (length reward_boundaries + 1)
                           \<lparr>capacity = Some max_buffer_size, memory = []\<rparr>,
        rbs_reward_scale = r,
        rng = rnd, rng_pos = 0\<rparr>"

text \<open>The counting loop of \<^verbatim>\<open>sample\<close>: \<^verbatim>\<open>n_samples[_policy_index(frame[0]['state'])] += 1\<close>.\<close>

fun count_samples :: "real list \<Rightarrow> transition list list \<Rightarrow> nat list \<Rightarrow> error + nat list" where
  "count_samples bs [] n_samples = Inr n_samples"
| "count_samples bs (frame # experiences) n_samples =
     (if frame = [] then Inl IndexError
      else bind_err (policy_index bs (state (hd frame))) (\<lambda>k.
             if length n_samples \<le> k then Inl IndexError
             else count_samples bs experiences (n_samples[k := n_samples ! k + 1])))"

text \<open>
  The drawing loop of \<^verbatim>\<open>sample\<close> over \<^verbatim>\<open>zip(self.replay_buffers, n_samples)\<close>, keeping the
  draws of each bucket apart; \<^verbatim>\<open>ret\<close> is their concatenation.
\<close>

fun draw_buckets ::
  "(nat \<Rightarrow> nat) \<Rightarrow> nat \<Rightarrow> (replay_buffer \<times> nat) list \<Rightarrow> error + transition list list list" where
  "draw_buckets rnd pos [] = Inr []"
| "draw_buckets rnd pos ((rbuf, n_sample) # rest) =
     bind_err (rbuf_sample (\<lambda>k. rnd (pos + k)) rbuf n_sample) (\<lambda>samples.
       bind_err (draw_buckets rnd (pos + n_sample) rest) (\<lambda>others.
         Inr (samples # others)))"

definition sample_buckets ::
  "sampler \<Rightarrow> transition list list \<Rightarrow> error + (transition list list list \<times> sampler)" where
  "sample_buckets s experiences =
     bind_err (update_buffer (length experiences) s) (\<lambda>s'.
       bind_err (count_samples (rbs_reward_boundaries s') experiences
                   (replicate (length (rbs_reward_boundaries s') + 1) 0)) (\<lambda>n_samples.
         bind_err (draw_buckets (rng s') (rng_pos s') (zip (replay_buffers s') n_samples))
           (\<lambda>parts. Inr (parts, s'\<lparr>rng_pos := rng_pos s' + sum_list n_samples\<rparr>))))"

definition sample :: "sampler \<Rightarrow> transition list list \<Rightarrow> error + (transition list list \<times> sampler)" where
  "sample s experiences =
     bind_err (sample_buckets s experiences) (\<lambda>(parts, s'). Inr (concat parts, s'))"

text \<open>
  The state of the buckets: during the filling loop every bucket has capacity
  \<open>max_buffer_size\<close> and holds at most that many entries; once the loop has ended every
  bucket holds exactly \<open>max_buffer_size\<close> entries, and there is one bucket more than
  there are boundaries.
\<close>

definition buckets_bounded :: "nat \<Rightarrow> sampler \<Rightarrow> bool" where
  "buckets_bounded max_buffer_size s \<longleftrightarrow>
     length (replay_buffers s) = length (rbs_reward_boundaries s) + 1
     \<and> list_all (\<lambda>rbuf. capacity rbuf = Some max_buffer_size
                        \<and> length (memory rbuf) \<le> max_buffer_size) (replay_buffers s)"

definition buckets_full :: "nat \<Rightarrow> sampler \<Rightarrow> bool" where
  "buckets_full max_buffer_size s \<longleftrightarrow>
     length (replay_buffers s) = length (rbs_reward_boundaries s) + 1
     \<and> list_all (\<lambda>rbuf. capacity rbuf = Some max_buffer_size
                        \<and> length (memory rbuf) = max_buffer_size) (replay_buffers s)"

text \<open>\<^verbatim>\<open>load_experiences_from_demonstrations\<close>, with the dataset's new cursor.\<close>

fun draw_demonstrations :: "nat \<Rightarrow> real \<Rightarrow> dataset \<Rightarrow> transition list list \<times> dataset" where
  "draw_demonstrations 0 r ds = ([], ds)"
| "draw_demonstrations (Suc n) r ds =
     (let (d, ds') = dataset_sample ds;
          (ret, ds'') = draw_demonstrations n r ds'
      in ([\<lparr>state = demo_ob d, action = demo_act d, reward = r,
            next_state = demo_next_ob d, next_action = None,
            is_state_terminal = demo_done d, weight = None\<rparr>] # ret, ds''))"

definition load_experiences_from_demonstrations ::
  "dataset option \<Rightarrow> int \<Rightarrow> real \<Rightarrow> error + (transition list list \<times> dataset)" where
  "load_experiences_from_demonstrations expert_dataset batch_size r =
     (case expert_dataset of
        None \<Rightarrow> Inl ValueError
      | Some ds \<Rightarrow> Inr (draw_demonstrations (nat batch_size) r ds))"

section \<open>Collaborators of the agent\<close>

text \<open>
  Modelled from the spec: \<^verbatim>\<open>pfrl.replay_buffer.batch_experiences\<close>, the Batch Assembler of
  the spec, is imported by the source and not part of it. Each experience is the list of
  the consecutive transitions of one sample; the row takes the first state and action, the
  discounted sum of the rewards, the last next state, whether any transition is terminal,
  and \<open>gamma\<close> to the number of steps, which is \<open>gamma\<close> itself for a one-step experience.
  An empty list of experiences is rejected. The feature extractor \<^verbatim>\<open>phi\<close> is part of the
  network's forward function.
\<close>

definition batch_experiences :: "transition list list \<Rightarrow> real \<Rightarrow> error + exp_batch" where
  "batch_experiences experiences g =
     (if experiences = [] then Inl RuntimeError
      else if [] \<in> set experiences then Inl IndexError
      else Inr
        \<lparr>batch_state = map (\<lambda>elem. state (hd elem)) experiences,
         batch_actions = map (\<lambda>elem. action (hd elem)) experiences,
         batch_rewards =
           map (\<lambda>elem. sum_list (map (\<lambda>i. g ^ i * reward (elem ! i)) [0..<length elem]))
             experiences,
         batch_next_state = map (\<lambda>elem. next_state (last elem)) experiences,
         batch_terminal =
           map (\<lambda>elem. if list_ex is_state_terminal elem then 1 else 0) experiences,
         discount = map (\<lambda>elem. g ^ length elem) experiences,
         weights = None\<rparr>)"

text \<open>
  Modelled from the spec: \<^verbatim>\<open>pfrl.replay_buffer.batch_recurrent_experiences\<close>, imported by
  the source and not part of it: the episodes, sorted by descending length, are laid out
  step after step, each step discounted by \<open>gamma\<close>. The recurrent state that pfrl packs
  along is outside this model: the Q-values of a step depend on its state only.
\<close>

definition batch_recurrent_experiences :: "transition list list \<Rightarrow> real \<Rightarrow> error + exp_batch" where
  "batch_recurrent_experiences episodes g =
     (if episodes = [] then Inl RuntimeError
      else if \<not> sorted (rev (map length episodes)) then Inl AssertionError
      else
        let flat_transitions = concat episodes
        in Inr
          \<lparr>batch_state = map state flat_transitions,
           batch_actions = map action flat_transitions,
           batch_rewards = map reward flat_transitions,
           batch_next_state = map next_state flat_transitions,
           batch_terminal = map (\<lambda>tr. if is_state_terminal tr then 1 else 0) flat_transitions,
           discount = replicate (length flat_transitions) g,
           weights = None\<rparr>)"

text \<open>
  Modelled from the spec: \<^verbatim>\<open>pfrl.utils.copy_param.synchronize_parameters\<close>, the Target Sync
  Controller's two modes, is imported by the source and not part of it. \<^verbatim>\<open>hard\<close> copies
  every parameter of the source network into the destination; \<^verbatim>\<open>soft\<close> sets
  \<open>target \<leftarrow> (1 - tau) * target + tau * online\<close> parameter by parameter; any other method
  is a missing key. Neither mode touches the destination's train/eval flag.
\<close>

definition synchronize_parameters :: "network \<Rightarrow> network \<Rightarrow> string \<Rightarrow> real \<Rightarrow> error + network" where
  "synchronize_parameters src dst method tau =
     (if method = ''hard'' then Inr (dst\<lparr>params := params src\<rparr>)
      else if method = ''soft''
      then (if length (params dst) \<noteq> length (params src) then Inl AssertionError
            else Inr (dst\<lparr>params := map2 (\<lambda>target_value source_value.
                                              (1 - tau) * target_value + tau * source_value)
                                         (params dst) (params src)\<rparr>))
      else Inl KeyError)"

text \<open>
  The replay buffer handed to the agent is any object with pfrl's buffer interface
  (\<^verbatim>\<open>__len__\<close>, \<^verbatim>\<open>capacity\<close>, \<^verbatim>\<open>append\<close>, \<^verbatim>\<open>stop_current_episode\<close>, \<^verbatim>\<open>sample\<close>,
  \<^verbatim>\<open>n_episodes\<close>, \<^verbatim>\<open>sample_episodes\<close>, \<^verbatim>\<open>update_errors\<close>): a state of type \<open>'rb\<close> and
  the operations on it. Sampling returns the buffer too, since it consumes randomness.
\<close>

record 'rb buffer_ops =
  rb_len :: "'rb \<Rightarrow> nat"
  rb_capacity :: "'rb \<Rightarrow> int option"
  rb_append :: "'rb \<Rightarrow> nat \<Rightarrow> transition \<Rightarrow> 'rb"
  rb_stop_current_episode :: "'rb \<Rightarrow> nat \<Rightarrow> 'rb"
  rb_sample :: "'rb \<Rightarrow> int \<Rightarrow> error + transition list list \<times> 'rb"
  rb_n_episodes :: "'rb \<Rightarrow> error + int"
  rb_sample_episodes :: "'rb \<Rightarrow> int \<Rightarrow> int option \<Rightarrow> error + transition list list \<times> 'rb"
  rb_update_errors :: "'rb \<Rightarrow> real list \<Rightarrow> error + 'rb"

section \<open>The SQIL agent\<close>

text \<open>
  The arguments of \<^verbatim>\<open>SQIL.__init__\<close>. The network \<open>q_function\<close> comes with its forward
  function \<open>forward\<close>; \<open>optimizer\<close> maps the loss, as a function of the parameters, and the
  current parameters to the parameters after one step; \<open>explorer\<close> is \<^verbatim>\<open>select_action\<close>
  of the exploration policy on the step count, the greedy action and the Q-values;
  \<open>cuda_is_available\<close> is what \<^verbatim>\<open>torch.cuda.is_available()\<close> answers; \<open>random_source\<close>
  drives the draws of the reward-based sampler's buckets.
\<close>

record 'rb args =
  q_function :: network
  forward :: "network \<Rightarrow> obs \<Rightarrow> real list"
  optimizer :: "(real list \<Rightarrow> error + real) \<Rightarrow> real list \<Rightarrow> real list"
  replay_buffer :: 'rb
  buffer :: "'rb buffer_ops"
  gamma :: real
  explorer :: "int \<Rightarrow> nat \<Rightarrow> real list \<Rightarrow> nat"
  gpu :: "int option"
  cuda_is_available :: bool
  replay_start_size :: int
  minibatch_size :: int
  update_interval :: int
  target_update_interval :: int
  clip_delta :: bool
  target_update_method :: string
  soft_update_tau :: real
  n_times_update :: int
  batch_accumulator :: string
  episodic_update_len :: "int option"
  expert_dataset :: "dataset option"
  reward_scale :: real
  experience_lambda :: real
  recurrent :: bool
  reward_boundaries :: "real list option"
  random_source :: "nat \<Rightarrow> nat"

text \<open>
  The agent keeps its arguments and adds its own state. \<^verbatim>\<open>self.replay_updater\<close> holds
  copies of \<open>replay_start_size\<close>, \<open>update_interval\<close>, \<open>n_times_update\<close>,
  \<open>episodic_update_len\<close>, of \<open>minibatch_size\<close> (as \<^verbatim>\<open>batchsize\<close>) and of \<open>recurrent\<close>
  (as \<^verbatim>\<open>episodic_update\<close>), read here from the arguments. \<open>batch_last_obs\<close> and
  \<open>batch_last_action\<close> do not exist before the first \<^verbatim>\<open>batch_act\<close> in training mode.
\<close>

record 'rb agent = "'rb args" +
  model :: network
  reward_based_sampler :: "sampler option"
  t :: int
  optim_t :: int
  cumulative_steps :: int
  batch_last_obs :: "obs option list option"
  batch_last_action :: "nat option list option"
  target_model :: "network option"
  q_record :: "real list"
  loss_record :: "real list"
  training :: bool

definition sync_target_network :: "'rb agent \<Rightarrow> error + 'rb agent" where
  "sync_target_network self =
     (case target_model self of
        None \<Rightarrow> Inr (self\<lparr>target_model := Some ((model self)\<lparr>net_training := False\<rparr>)\<rparr>)
      | Some dst \<Rightarrow>
          bind_err (synchronize_parameters (model self) dst
                      (target_update_method self) (soft_update_tau self))
            (\<lambda>dst'. Inr (self\<lparr>target_model := Some dst'\<rparr>)))"

text \<open>\<^verbatim>\<open>qout.evaluate_actions(batch_actions)\<close>: the Q-value of the taken action, row by row.\<close>

definition evaluate_actions :: "real list list \<Rightarrow> nat list \<Rightarrow> error + real list" where
  "evaluate_actions q_values actions =
     (if length actions \<noteq> length q_values then Inl RuntimeError
      else if list_ex (\<lambda>(row, a). length row \<le> a) (zip q_values actions) then Inl IndexError
      else Inr (map2 (\<lambda>row a. row ! a) q_values actions))"

definition compute_y_and_t :: "'rb agent \<Rightarrow> exp_batch \<Rightarrow> error + real list \<times> real list" where
  "compute_y_and_t self exp_batch =
     (let batch_size = length (batch_rewards exp_batch);
          qout = map (forward self (model self)) (batch_state exp_batch)
      in bind_err (evaluate_actions qout (batch_actions exp_batch)) (\<lambda>batch_q.
           if length batch_q \<noteq> batch_size then Inl RuntimeError
           else case target_model self of
                  None \<Rightarrow> Inl TypeError
                | Some tm \<Rightarrow>
                    bind_err (compute_target_values (forward self tm) exp_batch)
                      (\<lambda>batch_q_target.
                         if length batch_q_target \<noteq> batch_size then Inl RuntimeError
                         else Inr (batch_q, batch_q_target))))"

text \<open>
  \<^verbatim>\<open>SQIL.__compute_loss\<close>: the loss, with the predicted values that go to \<^verbatim>\<open>q_record\<close>
  and the absolute TD errors that go to \<^verbatim>\<open>errors_out\<close> when a list is passed.
\<close>

definition private_compute_loss :: "'rb agent \<Rightarrow> exp_batch \<Rightarrow> error + real \<times> real list \<times> real list" where
  "private_compute_loss self exp_batch =
     bind_err (compute_y_and_t self exp_batch) (\<lambda>(y, t).
       bind_err
         (case weights exp_batch of
            Some w \<Rightarrow> compute_weighted_value_loss y t w (clip_delta self) (batch_accumulator self)
          | None \<Rightarrow> compute_value_loss y t (clip_delta self) (batch_accumulator self))
         (\<lambda>loss. Inr (loss, y, map2 (\<lambda>y t. \<bar>y - t\<bar>) y t)))"

definition compute_loss ::
  "'rb agent \<Rightarrow> exp_batch \<Rightarrow> exp_batch \<Rightarrow> error + real \<times> real list \<times> real list" where
  "compute_loss self exp_batch demo_batch =
     bind_err (private_compute_loss self exp_batch) (\<lambda>(exp_loss, exp_y, errors_out).
       bind_err (private_compute_loss self demo_batch) (\<lambda>(demo_loss, demo_y, _).
         Inr ((exp_loss * experience_lambda self + demo_loss) / 2, exp_y @ demo_y, errors_out)))"

subsection \<open>Construction\<close>

text \<open>
  \<^verbatim>\<open>SQIL.__init__\<close>, check by check in the order of the source. The constructor of pfrl's
  \<^verbatim>\<open>ReplayUpdater\<close> asserts that the batch size does not exceed \<open>replay_start_size\<close>.
  The reward-based sampler is built with its default bucket size of 1000, and draws from
  the very dataset object the agent keeps. The result is \<open>None\<close> when the sampler's filling
  loop does not end.
\<close>

definition build_sampler :: "'rb args \<Rightarrow> (error + sampler option) option" where
  "build_sampler a =
     (case (reward_boundaries a, expert_dataset a) of
        (Some bs, Some ds) \<Rightarrow>
          (case RewardBasedSampler ds bs 1000 (reward_scale a) (random_source a) of
             None \<Rightarrow> None
           | Some (Inl e) \<Rightarrow> Some (Inl e)
           | Some (Inr s) \<Rightarrow> Some (Inr (Some s)))
      | _ \<Rightarrow> Some (Inr None))"

definition SQIL :: "'rb args \<Rightarrow> (error + 'rb agent) option" where
  "SQIL a =
     (if (case gpu a of None \<Rightarrow> False | Some g \<Rightarrow> 0 \<le> g) \<and> \<not> cuda_is_available a
      then Some (Inl AssertionError)
      else if \<not> (batch_accumulator a = ''mean'' \<or> batch_accumulator a = ''sum'')
      then Some (Inl AssertionError)
      else if \<not> minibatch_size a \<le> replay_start_size a then Some (Inl AssertionError)
      else if update_interval a = 0 then Some (Inl ZeroDivisionError)
      else if target_update_interval a mod update_interval a \<noteq> 0 then Some (Inl AssertionError)
      else
        (case build_sampler a of
           None \<Rightarrow> None
         | Some (Inl e) \<Rightarrow> Some (Inl e)
         | Some (Inr sampler) \<Rightarrow>
             let self = args.extend a
                   (agent.fields (q_function a) sampler 0 0 0 None None None [] [] True);
                 self = (case sampler of
                           None \<Rightarrow> self
                         | Some s \<Rightarrow> self\<lparr>expert_dataset := Some (rbs_expert_dataset s)\<rparr>)
             in (case sync_target_network self of
                   Inl e \<Rightarrow> Some (Inl e)
                 | Inr self \<Rightarrow>
                     if (case rb_capacity (buffer self) (replay_buffer self) of
                           None \<Rightarrow> False
                         | Some c \<Rightarrow> c < replay_start_size self)
                     then Some (Inl ValueError)
                     else Some (Inr self))))"

subsection \<open>Updates\<close>

text \<open>A bounded window (\<^verbatim>\<open>collections.deque(maxlen=...)\<close>) after appending values.\<close>

definition extend_window :: "nat \<Rightarrow> real list \<Rightarrow> real list \<Rightarrow> real list" where
  "extend_window maxlen window xs = (let ys = window @ xs in drop (length ys - maxlen) ys)"

text \<open>
  The demonstrations of one update: from the reward-based sampler when there is one,
  else \<open>batchsize\<close> uniform draws. The sampler and the agent share one dataset object, so
  its cursor is handed over and taken back.
\<close>

definition demonstrations ::
  "'rb agent \<Rightarrow> transition list list \<Rightarrow> error + transition list list \<times> 'rb agent" where
  "demonstrations self experiences =
     (case reward_based_sampler self of
        Some s \<Rightarrow>
          bind_err (sample (case expert_dataset self of
                              None \<Rightarrow> s
                            | Some ds \<Rightarrow> s\<lparr>rbs_expert_dataset := ds\<rparr>) experiences)
            (\<lambda>(demo_experiences, s').
               Inr (demo_experiences,
                    self\<lparr>reward_based_sampler := Some s',
                         expert_dataset := Some (rbs_expert_dataset s')\<rparr>))
      | None \<Rightarrow>
          bind_err (load_experiences_from_demonstrations (expert_dataset self)
                      (minibatch_size self) (reward_scale self))
            (\<lambda>(demo_experiences, ds).
               Inr (demo_experiences, self\<lparr>expert_dataset := Some ds\<rparr>)))"

text \<open>The loss of the two batches as a function of the online parameters.\<close>

definition loss_of_params :: "'rb agent \<Rightarrow> exp_batch \<Rightarrow> exp_batch \<Rightarrow> real list \<Rightarrow> error + real" where
  "loss_of_params self exp_batch demo_batch p =
     bind_err (compute_loss (self\<lparr>model := (model self)\<lparr>params := p\<rparr>\<rparr>) exp_batch demo_batch)
       (\<lambda>(loss, _, _). Inr loss)"

text \<open>
  The tail shared by \<^verbatim>\<open>update\<close> and \<^verbatim>\<open>update_from_episodes\<close>: record the statistics,
  step the optimizer, count the update.
\<close>

definition optimize :: "'rb agent \<Rightarrow> exp_batch \<Rightarrow> exp_batch \<Rightarrow> real \<Rightarrow> real list \<Rightarrow> 'rb agent" where
  "optimize self exp_batch demo_batch loss ys =
     self\<lparr>q_record := extend_window 1000 (q_record self) ys,
          loss_record := extend_window 100 (loss_record self) [loss],
          model := (model self)\<lparr>params :=
                     optimizer self (loss_of_params self exp_batch demo_batch)
                       (params (model self))\<rparr>,
          optim_t := optim_t self + 1\<rparr>"

text \<open>
  \<^verbatim>\<open>SQIL.update\<close>. When the call raises, the model keeps the agent as it was when
  the call started: what the failed call had already written to the statistics window,
  the dataset's cursor and the buckets is not tracked.
\<close>

definition update :: "'rb agent \<Rightarrow> transition list list \<Rightarrow> error + 'rb agent" where
  "update self experiences =
     (if experiences = [] then Inl IndexError
      else if hd experiences = [] then Inl IndexError
      else
        let has_weight = (weight (hd (hd experiences)) \<noteq> None)
        in bind_err (batch_experiences experiences (gamma self)) (\<lambda>exp_batch.
           bind_err (if \<not> has_weight then Inr exp_batch
                     else if list_ex (\<lambda>elem. weight (hd elem) = None) experiences
                     then Inl KeyError
                     else Inr (exp_batch\<lparr>weights :=
                                 Some (map (\<lambda>elem. the (weight (hd elem))) experiences)\<rparr>))
             (\<lambda>exp_batch.
           bind_err (demonstrations self experiences) (\<lambda>(demo_experiences, self).
           bind_err (batch_experiences demo_experiences (gamma self)) (\<lambda>demo_batch.
           bind_err (compute_loss self exp_batch demo_batch) (\<lambda>(loss, ys, errors_out).
           bind_err (if has_weight
                     then rb_update_errors (buffer self) (replay_buffer self) errors_out
                     else Inr (replay_buffer self)) (\<lambda>rbuf.
             Inr (optimize (self\<lparr>replay_buffer := rbuf\<rparr>) exp_batch demo_batch loss ys))))))))"

text \<open>\<^verbatim>\<open>SQIL.update_from_episodes\<close>; \<open>errors_out\<close> says whether a list was passed.\<close>

definition update_from_episodes :: "'rb agent \<Rightarrow> transition list list \<Rightarrow> bool \<Rightarrow> error + 'rb agent" where
  "update_from_episodes self episodes errors_out =
     (if errors_out then Inl AssertionError
      else
        let episodes = sort_key (\<lambda>ep. - int (length ep)) episodes
        in bind_err (batch_recurrent_experiences episodes (gamma self)) (\<lambda>exp_batch.
           bind_err (load_experiences_from_demonstrations (expert_dataset self)
                       (minibatch_size self) (reward_scale self)) (\<lambda>(demo_experiences, ds).
           bind_err (batch_experiences demo_experiences (gamma self)) (\<lambda>demo_batch.
           bind_err (compute_loss self exp_batch demo_batch) (\<lambda>(loss, ys, _).
             Inr (optimize (self\<lparr>expert_dataset := Some ds\<rparr>) exp_batch demo_batch loss ys))))))"

subsection \<open>The update scheduler\<close>

definition can_start_replay :: "'rb agent \<Rightarrow> error + bool" where
  "can_start_replay self =
     (if int (rb_len (buffer self) (replay_buffer self)) < replay_start_size self then Inr False
      else if recurrent self
      then bind_err (rb_n_episodes (buffer self) (replay_buffer self))
             (\<lambda>n_episodes. Inr (\<not> n_episodes < minibatch_size self))
      else Inr True)"

text \<open>
  One pass of the scheduler's loop: sample from the replay buffer and call the update
  function chosen at construction. The agent comes back with what the completed updates
  did, and with the exception of the one that failed, if any.
\<close>

definition update_once :: "'rb agent \<Rightarrow> error + 'rb agent" where
  "update_once self =
     (if recurrent self
      then bind_err (rb_sample_episodes (buffer self) (replay_buffer self)
                       (minibatch_size self) (episodic_update_len self))
             (\<lambda>(episodes, rbuf). update_from_episodes (self\<lparr>replay_buffer := rbuf\<rparr>) episodes False)
      else bind_err (rb_sample (buffer self) (replay_buffer self) (minibatch_size self))
             (\<lambda>(transitions, rbuf). update (self\<lparr>replay_buffer := rbuf\<rparr>) transitions))"

fun update_n_times :: "nat \<Rightarrow> 'rb agent \<Rightarrow> 'rb agent \<times> error option" where
  "update_n_times 0 self = (self, None)"
| "update_n_times (Suc n) self =
     (case update_once self of
        Inl e \<Rightarrow> (self, Some e)
      | Inr self' \<Rightarrow> update_n_times n self')"

text \<open>
  Modelled from the spec: \<^verbatim>\<open>ReplayUpdater.update_if_necessary\<close> of pfrl, the Update
  Scheduler of the spec, is imported by the source and not part of it. The update is
  skipped whenever the buffer is shorter than \<open>replay_start_size\<close> (in recurrent mode also
  when it holds fewer than \<open>minibatch_size\<close> episodes, as \<^verbatim>\<open>SQIL._can_start_replay\<close> has
  it) or the step count is not a multiple of \<open>update_interval\<close>; otherwise the update path
  runs \<open>n_times_update\<close> times.
\<close>

definition update_if_necessary :: "'rb agent \<Rightarrow> int \<Rightarrow> 'rb agent \<times> error option" where
  "update_if_necessary self iteration =
     (case can_start_replay self of
        Inl e \<Rightarrow> (self, Some e)
      | Inr False \<Rightarrow> (self, None)
      | Inr True \<Rightarrow>
          if update_interval self = 0 then (self, Some ZeroDivisionError)
          else if iteration mod update_interval self \<noteq> 0 then (self, None)
          else update_n_times (nat (n_times_update self)) self)"

subsection \<open>Acting and observing\<close>

text \<open>The greedy action of a row: the first position of its maximum.\<close>

definition greedy_action :: "real list \<Rightarrow> nat" where
  "greedy_action row = length (takeWhile (\<lambda>q. q \<noteq> Max (set row)) row)"

text \<open>
  \<^verbatim>\<open>SQIL.batch_act\<close>: the network is evaluated in eval mode; both branches choose the
  actions in the same way, and the training branch caches observations and actions.
\<close>

definition batch_act :: "'rb agent \<Rightarrow> obs list \<Rightarrow> error + nat list \<times> 'rb agent" where
  "batch_act self batch_obs =
     (let batch_av = map (forward self ((model self)\<lparr>net_training := False\<rparr>)) batch_obs
      in if [] \<in> set batch_av then Inl IndexError
         else
           let batch_action = map (\<lambda>row. explorer self (t self) (greedy_action row) row) batch_av
           in if training self
              then Inr (batch_action,
                        self\<lparr>batch_last_obs := Some (map Some batch_obs),
                             batch_last_action := Some (map Some batch_action)\<rparr>)
              else Inr (batch_action, self))"

text \<open>
  A step of a stateful operation ends with the agent as the operation left it and the
  exception it raised, if any.
\<close>

definition then_step ::
  "'s \<times> error option \<Rightarrow> ('s \<Rightarrow> 's \<times> error option) \<Rightarrow> 's \<times> error option" where
  "then_step r f = (case r of (s, None) \<Rightarrow> f s | (s, Some e) \<Rightarrow> (s, Some e))"

text \<open>
  The body of the loop of \<^verbatim>\<open>_batch_observe_train\<close> for slot \<open>i\<close>, up to the call of the
  scheduler: count the step, sync the target network when due, store the transition.
\<close>

definition count_step :: "'rb agent \<Rightarrow> 'rb agent" where
  "count_step self =
     (let self = self\<lparr>t := t self + 1\<rparr>
      in self\<lparr>cumulative_steps := cumulative_steps self + 1\<rparr>)"

definition sync_when_due :: "'rb agent \<Rightarrow> 'rb agent \<times> error option" where
  "sync_when_due self =
     (if target_update_interval self = 0 then (self, Some ZeroDivisionError)
      else if t self mod target_update_interval self = 0
      then (case sync_target_network self of
              Inl e \<Rightarrow> (self, Some e)
            | Inr self' \<Rightarrow> (self', None))
      else (self, None))"

definition store_transition ::
  "'rb agent \<Rightarrow> nat \<Rightarrow> obs list \<Rightarrow> real list \<Rightarrow> bool list \<Rightarrow> bool list
     \<Rightarrow> 'rb agent \<times> error option" where
  "store_transition self i batch_obs batch_reward batch_done batch_reset =
     (case (batch_last_obs self, batch_last_action self) of
        (None, _) \<Rightarrow> (self, Some AttributeError)
      | (Some last_obs, last_action) \<Rightarrow>
          if length last_obs \<le> i then (self, Some IndexError)
          else (case last_obs ! i of
                  None \<Rightarrow> (self, None)
                | Some ob \<Rightarrow>
                    (case last_action of
                       None \<Rightarrow> (self, Some AttributeError)
                     | Some last_action \<Rightarrow>
                         if length last_action \<le> i then (self, Some IndexError)
                         else (case last_action ! i of
                                 None \<Rightarrow> (self, Some AssertionError)
                               | Some a \<Rightarrow>
                                   if length batch_reward \<le> i \<or> length batch_done \<le> i
                                   then (self, Some IndexError)
                                   else
                                     let transition =
                                           \<lparr>state = ob, action = a, reward = batch_reward ! i,
                                            next_state = batch_obs ! i, next_action = None,
                                            is_state_terminal = batch_done ! i, weight = None\<rparr>;
                                         self = self\<lparr>replay_buffer :=
                                                  rb_append (buffer self) (replay_buffer self)
                                                    i transition\<rparr>
                                     in if length batch_reset \<le> i then (self, Some IndexError)
                                        else if batch_reset ! i \<or> batch_done ! i
                                        then (self\<lparr>batch_last_obs := Some (last_obs[i := None]),
                                                    batch_last_action :=
                                                      Some (last_action[i := None]),
                                                    replay_buffer :=
                                                      rb_stop_current_episode (buffer self)
                                                        (replay_buffer self) i\<rparr>, None)
                                        else (self, None)))))"

definition record_slot ::
  "'rb agent \<Rightarrow> nat \<Rightarrow> obs list \<Rightarrow> real list \<Rightarrow> bool list \<Rightarrow> bool list
     \<Rightarrow> 'rb agent \<times> error option" where
  "record_slot self i batch_obs batch_reward batch_done batch_reset =
     then_step (sync_when_due (count_step self))
       (\<lambda>self. store_transition self i batch_obs batch_reward batch_done batch_reset)"

definition observe_slot ::
  "'rb agent \<Rightarrow> nat \<Rightarrow> obs list \<Rightarrow> real list \<Rightarrow> bool list \<Rightarrow> bool list
     \<Rightarrow> 'rb agent \<times> error option" where
  "observe_slot self i batch_obs batch_reward batch_done batch_reset =
     then_step (record_slot self i batch_obs batch_reward batch_done batch_reset)
       (\<lambda>self. update_if_necessary self (t self))"

text \<open>The loop over the slots \<open>i, i + 1, \<dots>\<close> of which \<open>n\<close> remain.\<close>

fun observe_slots ::
  "nat \<Rightarrow> nat \<Rightarrow> 'rb agent \<Rightarrow> obs list \<Rightarrow> real list \<Rightarrow> bool list \<Rightarrow> bool list
     \<Rightarrow> 'rb agent \<times> error option" where
  "observe_slots 0 i self batch_obs batch_reward batch_done batch_reset = (self, None)"
| "observe_slots (Suc n) i self batch_obs batch_reward batch_done batch_reset =
     then_step (observe_slot self i batch_obs batch_reward batch_done batch_reset)
       (\<lambda>self. observe_slots n (Suc i) self batch_obs batch_reward batch_done batch_reset)"

definition batch_observe_train ::
  "'rb agent \<Rightarrow> obs list \<Rightarrow> real list \<Rightarrow> bool list \<Rightarrow> bool list \<Rightarrow> 'rb agent \<times> error option" where
  "batch_observe_train self batch_obs batch_reward batch_done batch_reset =
     observe_slots (length batch_obs) 0 self batch_obs batch_reward batch_done batch_reset"

text \<open>
  \<^verbatim>\<open>_batch_observe_eval\<close> only resets the recurrent states, which are outside this model.
\<close>

definition batch_observe_eval ::
  "'rb agent \<Rightarrow> obs list \<Rightarrow> real list \<Rightarrow> bool list \<Rightarrow> bool list \<Rightarrow> 'rb agent \<times> error option" where
  "batch_observe_eval self batch_obs batch_reward batch_done batch_reset = (self, None)"

definition batch_observe ::
  "'rb agent \<Rightarrow> obs list \<Rightarrow> real list \<Rightarrow> bool list \<Rightarrow> bool list \<Rightarrow> 'rb agent \<times> error option" where
  "batch_observe self batch_obs batch_reward batch_done batch_reset =
     (if training self
      then batch_observe_train self batch_obs batch_reward batch_done batch_reset
      else batch_observe_eval self batch_obs batch_reward batch_done batch_reset)"

definition stop_episode :: "'rb agent \<Rightarrow> 'rb agent" where
  "stop_episode self = self"

text \<open>
  \<^verbatim>\<open>get_statistics\<close>, the counters among its entries: \<^verbatim>\<open>cumulative_steps\<close>, \<^verbatim>\<open>n_updates\<close>
  and \<^verbatim>\<open>rlen\<close>.
\<close>

definition get_statistics :: "'rb agent \<Rightarrow> (string \<times> int) list" where
  "get_statistics self =
     [(''cumulative_steps'', cumulative_steps self),
      (''n_updates'', optim_t self),
      (''rlen'', int (rb_len (buffer self) (replay_buffer self)))]"

text \<open>
  The operations a caller has on a constructed agent; \<open>SetTraining\<close> is the switch of
  pfrl's \<^verbatim>\<open>eval_mode\<close> context.
\<close>

datatype operation =
    BatchAct "obs list"
  | BatchObserve "obs list" "real list" "bool list" "bool list"
  | SyncTargetNetwork
  | Update "transition list list"
  | UpdateFromEpisodes "transition list list" bool
  | StopEpisode
  | GetStatistics
  | SetTraining bool

definition keep_on_error :: "'s \<Rightarrow> error + 's \<Rightarrow> 's \<times> error option" where
  "keep_on_error s r = (case r of Inl e \<Rightarrow> (s, Some e) | Inr s' \<Rightarrow> (s', None))"

fun perform :: "'rb agent \<Rightarrow> operation \<Rightarrow> 'rb agent \<times> error option" where
  "perform self (BatchAct batch_obs) =
     keep_on_error self (bind_err (batch_act self batch_obs) (\<lambda>(_, self'). Inr self'))"
| "perform self (BatchObserve batch_obs batch_reward batch_done batch_reset) =
     batch_observe self batch_obs batch_reward batch_done batch_reset"
| "perform self SyncTargetNetwork = keep_on_error self (sync_target_network self)"
| "perform self (Update experiences) = keep_on_error self (update self experiences)"
| "perform self (UpdateFromEpisodes episodes errors_out) =
     keep_on_error self (update_from_episodes self episodes errors_out)"
| "perform self StopEpisode = (stop_episode self, None)"
| "perform self GetStatistics = (self, None)"
| "perform self (SetTraining b) = (self\<lparr>training := b\<rparr>, None)"

text \<open>A caller's run: the operations in order, an exception not stopping the caller.\<close>

fun run :: "'rb agent \<Rightarrow> operation list \<Rightarrow> 'rb agent" where
  "run self [] = self"
| "run self (op # ops) = run (fst (perform self op)) ops"

subsection \<open>Runs without an update\<close>

text \<open>
  \<open>below_start_size\<close>: at every call of the scheduler in the loop of
  \<^verbatim>\<open>_batch_observe_train\<close>, the replay buffer is shorter than \<open>replay_start_size\<close>. The
  loop is followed through its recording steps, slot after slot, until it ends or
  raises. \<open>quiet\<close>: a run of operations in which the caller never calls an update
  directly and every training observation stays below the start size.
\<close>

fun below_start_size ::
  "nat \<Rightarrow> nat \<Rightarrow> 'rb agent \<Rightarrow> obs list \<Rightarrow> real list \<Rightarrow> bool list \<Rightarrow> bool list \<Rightarrow> bool" where
  "below_start_size 0 i self batch_obs batch_reward batch_done batch_reset = True"
| "below_start_size (Suc n) i self batch_obs batch_reward batch_done batch_reset =
     (case record_slot self i batch_obs batch_reward batch_done batch_reset of
        (self', Some e) \<Rightarrow> True
      | (self', None) \<Rightarrow>
          int (rb_len (buffer self') (replay_buffer self')) < replay_start_size self'
          \<and> below_start_size n (Suc i) self' batch_obs batch_reward batch_done batch_reset)"

fun quiet :: "'rb agent \<Rightarrow> operation list \<Rightarrow> bool" where
  "quiet self [] = True"
| "quiet self (op # ops) =
     ((case op of
         Update experiences \<Rightarrow> False
       | UpdateFromEpisodes episodes errors_out \<Rightarrow> False
       | BatchObserve batch_obs batch_reward batch_done batch_reset \<Rightarrow>
           \<not> training self
           \<or> below_start_size (length batch_obs) 0 self
                batch_obs batch_reward batch_done batch_reset
       | _ \<Rightarrow> True)
      \<and> quiet (fst (perform self op)) ops)"

section \<open>Concrete instances\<close>

text \<open>
  A buffer with the interface above built on the plain FIFO buffer (it keeps no episodes
  and no priorities), a small agent whose network returns its two parameters as the
  Q-values of two actions, and a batch of one terminal row.
\<close>

definition plain_buffer :: "replay_buffer buffer_ops" where
  "plain_buffer =
     \<lparr>rb_len = (\<lambda>rbuf. length (memory rbuf)),
      rb_capacity = (\<lambda>rbuf. map_option int (capacity rbuf)),
      rb_append = (\<lambda>rbuf env_id tr. rbuf_append rbuf tr),
      rb_stop_current_episode = (\<lambda>rbuf env_id. rbuf),
      rb_sample = (\<lambda>rbuf n. bind_err (rbuf_sample (\<lambda>k. k) rbuf (nat n))
                                (\<lambda>samples. Inr (samples, rbuf))),
      rb_n_episodes = (\<lambda>rbuf. Inl AttributeError),
      rb_sample_episodes = (\<lambda>rbuf n len. Inl AttributeError),
      rb_update_errors = (\<lambda>rbuf errors. Inl AttributeError)\<rparr>"

definition example_args :: "replay_buffer args" where
  "example_args =
     \<lparr>q_function = \<lparr>params = [1, 2], net_training = True\<rparr>,
      forward = (\<lambda>net ob. params net),
      optimizer = (\<lambda>loss p. p),
      replay_buffer = \<lparr>capacity = Some 10, memory = []\<rparr>,
      buffer = plain_buffer,
      gamma = 99 / 100,
      explorer = (\<lambda>step greedy q. greedy),
      gpu = None,
      cuda_is_available = False,
      replay_start_size = 2,
      minibatch_size = 1,
      update_interval = 1,
      target_update_interval = 2,
      clip_delta = True,
      target_update_method = ''hard'',
      soft_update_tau = 1 / 100,
      n_times_update = 1,
      batch_accumulator = ''mean'',
      episodic_update_len = None,
      expert_dataset = None,
      reward_scale = 1,
      experience_lambda = 2,
      recurrent = False,
      reward_boundaries = None,
      random_source = (\<lambda>k. k)\<rparr>"

definition example_agent :: "replay_buffer agent" where
  "example_agent =
     args.extend example_args
       (agent.fields \<lparr>params = [1, 2], net_training = True\<rparr> None 0 0 0 None None
          (Some \<lparr>params = [1, 2], net_training = False\<rparr>) [] [] True)"

definition single_row :: "obs \<Rightarrow> obs \<Rightarrow> real \<Rightarrow> exp_batch" where
  "single_row s s' r =
     \<lparr>batch_state = [s], batch_actions = [0], batch_rewards = [r], batch_next_state = [s'],
      batch_terminal = [1], discount = [0], weights = None\<rparr>"

text \<open>
  A dataset whose draws alternate between the two buckets of the single boundary 1, a
  one-step frame with a given cumulative return, and the sampler that
  \<^verbatim>\<open>RewardBasedSampler(example_dataset, [1], max_buffer_size=1)\<close> builds.
\<close>

definition example_dataset :: dataset where
  "example_dataset =
     \<lparr>draws = (\<lambda>k. \<lparr>demo_ob = [[[if even k then 0 else 1]]], demo_act = k,
                     demo_next_ob = [[[0]]], demo_done = False\<rparr>),
      cursor = 0\<rparr>"

definition example_frame :: "real \<Rightarrow> transition list" where
  "example_frame c =
     [\<lparr>state = [[[c]]], action = 0, reward = 0, next_state = [[[c]]], next_action = None,
       is_state_terminal = False, weight = None\<rparr>]"

definition example_sampler :: sampler where
  "example_sampler =
     \<lparr>rbs_expert_dataset = example_dataset\<lparr>cursor := 2\<rparr>,
      rbs_reward_boundaries = [1],
      replay_buffers =
        [\<lparr>capacity = Some 1,
          memory = [[\<lparr>state = [[[0]]], action = 0, reward = 1, next_state = [[[0]]],
                      next_action = None, is_state_terminal = False, weight = None\<rparr>]]\<rparr>,
         \<lparr>capacity = Some 1,
          memory = [[\<lparr>state = [[[1]]], action = 1, reward = 1, next_state = [[[0]]],
                      next_action = None, is_state_terminal = False, weight = None\<rparr>]]\<rparr>],
      rbs_reward_scale = 1,
      rng = (\<lambda>k. k),
      rng_pos = 0\<rparr>"

text \<open>The small agent after one \<^verbatim>\<open>batch_act\<close> on a single observation.\<close>

definition example_acted :: "replay_buffer agent" where
  "example_acted =
     example_agent\<lparr>batch_last_obs := Some [Some []], batch_last_action := Some [Some 1]\<rparr>"

section \<open>Properties of the rounding\<close>

lemma nearest_even_error: "\<bar>of_int (nearest_even m) - m\<bar> \<le> 1 / 2"
proof -
  have "of_int \<lfloor>m\<rfloor> \<le> m" "m < of_int \<lfloor>m\<rfloor> + 1" by linarith+
  then show ?thesis by (auto simp: nearest_even_def Let_def)
qed

lemma nearest_even_near_int:
  assumes "of_int n \<le> m" and "m < of_int n + 1 / 2"
  shows "nearest_even m = n"
proof -
  have "\<lfloor>m\<rfloor> = n" using assms by linarith
  then show ?thesis using assms by (simp add: nearest_even_def Let_def)
qed

lemma floor_log2_le:
  assumes "0 < y"
  shows "2 powr of_int \<lfloor>log 2 y\<rfloor> \<le> y"
proof -
  have "2 powr of_int \<lfloor>log 2 y\<rfloor> \<le> 2 powr log 2 y"
    by (intro powr_mono) simp_all
  then show ?thesis using assms by simp
qed

lemma round_to_error: "\<bar>round_to p x - x\<bar> \<le> \<bar>x\<bar> / 2 ^ p"
proof (cases "x = 0")
  case True
  then show ?thesis by (simp add: round_to_def)
next
  case False
  define e where "e = \<lfloor>log 2 \<bar>x\<bar>\<rfloor>"
  define ulp :: real where "ulp = 2 powr (of_int e - real p + 1)"
  have up: "0 < ulp" by (simp add: ulp_def)
  have r: "round_to p x = of_int (nearest_even (x / ulp)) * ulp"
    using False by (simp add: round_to_def Let_def e_def ulp_def)
  have "round_to p x - x = (of_int (nearest_even (x / ulp)) - x / ulp) * ulp"
    using up by (simp add: r left_diff_distrib)
  then have "\<bar>round_to p x - x\<bar> = \<bar>of_int (nearest_even (x / ulp)) - x / ulp\<bar> * ulp"
    using up by (simp add: abs_mult)
  also have "\<dots> \<le> 1 / 2 * ulp"
    using up nearest_even_error [of "x / ulp"] by (intro mult_right_mono) simp_all
  also have "1 / 2 * ulp = 2 powr of_int e / 2 ^ p"
    by (simp add: ulp_def powr_diff powr_add powr_realpow)
  also have "\<dots> \<le> \<bar>x\<bar> / 2 ^ p"
    using floor_log2_le [of "\<bar>x\<bar>"] False by (simp add: e_def divide_right_mono)
  finally show ?thesis .
qed

lemma round_to_nonneg:
  assumes "0 \<le> x"
  shows "0 \<le> round_to p x" and "round_to p x \<le> 2 * x"
proof -
  have "x / 2 ^ p \<le> x" using assms by (simp add: divide_le_eq_1 mult_le_cancel_left1 field_simps)
  with round_to_error [of p x] assms show "0 \<le> round_to p x" "round_to p x \<le> 2 * x"
    by linarith+
qed

lemma round_to_near_one:
  assumes "1 \<le> x" and "x < 1 + 1 / 2 ^ p" and "0 < p"
  shows "round_to p x = 1"
proof -
  have "1 / 2 ^ p \<le> (1 :: real)" by (simp add: divide_le_eq_1)
  with assms have x2: "x < 2" by linarith
  have e: "\<lfloor>log 2 \<bar>x\<bar>\<rfloor> = 0"
  proof -
    have "0 \<le> log 2 x" using assms by simp
    moreover have "log 2 x < 1" using assms x2 by (simp add: log_less_iff)
    ultimately show ?thesis using assms by (simp add: floor_eq_iff)
  qed
  obtain k where p: "p = Suc k" using assms(3) by (cases p) auto
  have ulp: "2 powr (of_int 0 - real p + 1) = 1 / 2 ^ k"
    by (simp add: p powr_minus powr_realpow inverse_eq_divide)
  have "nearest_even (x / (1 / 2 ^ k)) = 2 ^ k"
  proof (rule nearest_even_near_int)
    show "of_int (2 ^ k) \<le> x / (1 / 2 ^ k)" using assms by simp
    have "x * 2 ^ k < (1 + 1 / 2 ^ p) * 2 ^ k" using assms by simp
    also have "\<dots> = 2 ^ k + 1 / 2" by (simp add: p field_simps)
    finally show "x / (1 / 2 ^ k) < of_int (2 ^ k) + 1 / 2" by simp
  qed
  then show ?thesis using assms e ulp by (simp add: round_to_def Let_def)
qed

lemma float64_error: "\<bar>float64 x - x\<bar> \<le> \<bar>x\<bar> / 2 ^ 53"
  unfolding float64_def by (rule round_to_error)

lemma threshold_error:
  assumes "\<bar>b / final\<bar> \<le> 1000"
  shows "\<bar>threshold final b - (b / final - 1 / 10 ^ 8)\<bar> \<le> 1 / 10 ^ 11"
proof -
  define q where "q = b / final"
  define eps :: real where "eps = 1 / 10 ^ 8"
  define u :: real where "u = 1 / 2 ^ 53"
  define d where "d = float64 q - float64 eps"
  have u: "0 < u" "u \<le> 1 / 10 ^ 15" by (simp_all add: u_def)
  have eps: "0 < eps" "eps \<le> 1" by (simp_all add: eps_def)
  have q: "\<bar>q\<bar> \<le> 1000" using assms by (simp add: q_def)
  have "\<bar>q\<bar> * u \<le> 1000 * u" using q u by (intro mult_right_mono) simp_all
  with float64_error [of q] have e1: "\<bar>float64 q - q\<bar> \<le> 1000 * u" by (simp add: u_def)
  have "\<bar>eps\<bar> * u \<le> 1 * u" using eps u by (intro mult_right_mono) simp_all
  with float64_error [of eps] have e2: "\<bar>float64 eps - eps\<bar> \<le> u" by (simp add: u_def)
  have dq: "\<bar>d - (q - eps)\<bar> \<le> 1001 * u" using e1 e2 unfolding d_def by linarith
  moreover have "1001 * u \<le> 1" using u by simp
  ultimately have "\<bar>d\<bar> \<le> 1002" using q eps by linarith
  then have "\<bar>d\<bar> * u \<le> 1002 * u" using u by (intro mult_right_mono) simp_all
  with float64_error [of d] have e3: "\<bar>float64 d - d\<bar> \<le> 1002 * u" by (simp add: u_def)
  have "\<bar>float64 d - (q - eps)\<bar> \<le> 2003 * u" using dq e3 by linarith
  also have "\<dots> \<le> 1 / 10 ^ 11" using u by simp
  finally show ?thesis by (simp add: threshold_def d_def q_def eps_def)
qed

lemma threshold_bounds:
  assumes "\<bar>b / final\<bar> \<le> 1000"
  shows "threshold final b < b / final" and "b / final - 2 / 10 ^ 8 < threshold final b"
proof -
  have "\<bar>threshold final b - (b / final - 1 / 100000000)\<bar> \<le> 1 / 100000000000"
    using threshold_error [OF assms] by simp
  then have "threshold final b < b / final \<and> b / final - 2 / 100000000 < threshold final b"
    by linarith
  then show "threshold final b < b / final" and "b / final - 2 / 10 ^ 8 < threshold final b"
    by simp_all
qed

lemma exceeds_at_or_above:
  assumes "final \<noteq> 0" and "\<bar>b / final\<bar> \<le> 1000" and "b / final \<le> c"
  shows "exceeds c final b"
  using threshold_bounds(1) [OF assms(2)] assms(1,3) unfolding exceeds_def by auto

lemma exceeds_within_tolerance:
  assumes "final \<noteq> 0" and "\<bar>b / final\<bar> \<le> 1000" and "exceeds c final b"
  shows "b / final - 2 / 10 ^ 8 < c"
  using threshold_bounds(2) [OF assms(2)] assms(1,3) unfolding exceeds_def
  by (simp only: if_False)

lemma not_exceeds_below:
  assumes "final \<noteq> 0" and "\<bar>b / final\<bar> \<le> 1000" and "c \<le> b / final - 2 / 10 ^ 8"
  shows "\<not> exceeds c final b"
  using exceeds_within_tolerance [OF assms(1,2)] assms(3) by fastforce

lemma cum_reward_entry:
  assumes "rectangular ob" and "ob \<noteq> []" and "hd ob \<noteq> []" and "hd (hd ob) \<noteq> []"
  shows "cum_reward ob = Inr (hd (hd (last ob)))"
proof -
  have l: "last ob \<in> set ob" using assms(2) by simp
  with assms(1) have "length (last ob) = length (hd ob)"
    by (auto simp: rectangular_def list_all_iff)
  with assms(3) have ne: "last ob \<noteq> []" by auto
  then have "hd (last ob) \<in> set (last ob)" by simp
  with assms(1) l have "length (hd (last ob)) = length (hd (hd ob))"
    by (auto simp: rectangular_def list_all_iff)
  with assms(4) have "hd (last ob) \<noteq> []" by auto
  with ne assms(1,2) show ?thesis by (simp add: cum_reward_def)
qed

lemma float32_error: "\<bar>float32 x - x\<bar> \<le> \<bar>x\<bar> / 2 ^ 24"
  unfolding float32_def by (rule round_to_error)

lemma float32_nonneg:
  assumes "0 \<le> x"
  shows "0 \<le> float32 x" and "float32 x \<le> 2 * x"
  unfolding float32_def using assms by (rule round_to_nonneg)+

lemma float32_near_one:
  assumes "1 \<le> x" and "x < 1 + 1 / 2 ^ 24"
  shows "float32 x = 1"
  unfolding float32_def using assms by (intro round_to_near_one) simp_all

lemma float32_zero: "float32 0 = 0"
  by (simp add: float32_def round_to_def)

lemma exp_minus_99: "exp (- 99 :: real) \<le> 1 / 2 ^ 99"
proof -
  have "(2 :: real) \<le> exp 1" using exp_ge_add_one_self [of "1 :: real"] by simp
  then have "(2 :: real) ^ 99 \<le> exp 1 ^ 99" by (intro power_mono) simp_all
  also have "exp (1 :: real) ^ 99 = exp (of_nat 99 * 1)" by (rule exp_of_nat_mult [symmetric])
  finally have "(2 :: real) ^ 99 \<le> exp 99" by simp
  then have "1 / exp (99 :: real) \<le> 1 / 2 ^ 99" by (intro divide_left_mono) simp_all
  then show ?thesis by (simp add: exp_minus inverse_eq_divide)
qed

section \<open>Properties of the soft value\<close>

lemma next_q_max_ge: "q \<in> set qs \<Longrightarrow> q \<le> next_q_max qs"
  by (simp add: next_q_max_def)

lemma next_q_max_mem: "qs \<noteq> [] \<Longrightarrow> next_q_max qs \<in> set qs"
  unfolding next_q_max_def by (rule Max_in) simp_all

lemma sum_list_exp_nonneg: "0 \<le> sum_list (map (\<lambda>q. exp (q - m)) qs)" for m :: real
  by (rule sum_list_nonneg) auto

lemma sum_list_exp_pos: "qs \<noteq> [] \<Longrightarrow> 0 < sum_list (map (\<lambda>q. exp (q - m)) qs)" for m :: real
  by (cases qs) (auto intro!: add_pos_nonneg sum_list_exp_nonneg)

lemma sum_list_exp_ge_one:
  fixes m :: real
  assumes "m \<in> set qs"
  shows "1 \<le> sum_list (map (\<lambda>q. exp (q - m)) qs)"
proof -
  have "sum_list (map (\<lambda>q. exp (q - m)) qs)
        = exp (m - m) + sum_list (map (\<lambda>q. exp (q - m)) (remove1 m qs))"
    using assms by (rule sum_list_map_remove1)
  moreover have "0 \<le> sum_list (map (\<lambda>q. exp (q - m)) (remove1 m qs))"
    by (rule sum_list_exp_nonneg)
  ultimately show ?thesis by simp
qed

lemma sum_list_exp_gt_one:
  fixes m :: real
  assumes "m \<in> set qs" and "2 \<le> length qs"
  shows "1 < sum_list (map (\<lambda>q. exp (q - m)) qs)"
proof -
  have eq: "sum_list (map (\<lambda>q. exp (q - m)) qs)
        = exp (m - m) + sum_list (map (\<lambda>q. exp (q - m)) (remove1 m qs))"
    using assms(1) by (rule sum_list_map_remove1)
  have "length (remove1 m qs) = length qs - 1"
    using assms(1) by (simp add: length_remove1)
  then have "remove1 m qs \<noteq> []"
    using assms(2) by auto
  then have "0 < sum_list (map (\<lambda>q. exp (q - m)) (remove1 m qs))"
    by (rule sum_list_exp_pos)
  then show ?thesis using eq by simp
qed

lemma next_q_soft_ge_max: "qs \<noteq> [] \<Longrightarrow> next_q_max qs \<le> next_q_soft qs"
  unfolding next_q_soft_def
  using sum_list_exp_ge_one [OF next_q_max_mem, of qs] by simp

lemma next_q_soft_eq_max_iff:
  assumes "qs \<noteq> []"
  shows "next_q_soft qs = next_q_max qs \<longleftrightarrow> length qs = 1"
proof
  assume eq: "next_q_soft qs = next_q_max qs"
  show "length qs = 1"
  proof (rule ccontr)
    assume "length qs \<noteq> 1"
    moreover have "length qs \<noteq> 0" using assms by simp
    ultimately have "2 \<le> length qs" by linarith
    from sum_list_exp_gt_one [OF next_q_max_mem [OF assms] this]
    have "0 < ln (sum_list (map (\<lambda>q. exp (q - next_q_max qs)) qs))" by simp
    with eq show False by (simp add: next_q_soft_def)
  qed
next
  assume "length qs = 1"
  then obtain q where "qs = [q]" by (cases qs) auto
  then show "next_q_soft qs = next_q_max qs"
    by (simp add: next_q_soft_def next_q_max_def)
qed

lemma sum_list_exp_spread:
  fixes D :: real
  assumes i: "i < length qs"
    and gap: "\<And>j. j < length qs \<Longrightarrow> j \<noteq> i \<Longrightarrow> qs ! j \<le> qs ! i - D"
  shows "sum_list (map (\<lambda>q. exp (q - next_q_max qs)) qs) \<le> 1 + real (length qs - 1) * exp (- D)"
proof -
  let ?m = "next_q_max qs"
  let ?n = "length qs"
  have mi: "qs ! i \<le> ?m" using i by (simp add: next_q_max_ge)
  have "sum_list (map (\<lambda>q. exp (q - ?m)) qs) = (\<Sum>j = 0..<?n. exp (qs ! j - ?m))"
    by (simp add: sum_list_sum_nth)
  also have "\<dots> = exp (qs ! i - ?m) + (\<Sum>j \<in> {0..<?n} - {i}. exp (qs ! j - ?m))"
    using i by (intro sum.remove) auto
  also have "\<dots> \<le> 1 + (\<Sum>j \<in> {0..<?n} - {i}. exp (- D))"
  proof (rule add_mono)
    show "exp (qs ! i - ?m) \<le> 1" using mi by simp
    show "(\<Sum>j \<in> {0..<?n} - {i}. exp (qs ! j - ?m)) \<le> (\<Sum>j \<in> {0..<?n} - {i}. exp (- D))"
    proof (rule sum_mono)
      fix j assume "j \<in> {0..<?n} - {i}"
      then have "qs ! j \<le> qs ! i - D" using gap by auto
      with mi show "exp (qs ! j - ?m) \<le> exp (- D)" by simp
    qed
  qed
  also have "(\<Sum>j \<in> {0..<?n} - {i}. exp (- D)) = real (?n - 1) * exp (- D)"
    using i by simp
  finally show ?thesis .
qed

lemma next_q_soft_spread:
  fixes D :: real
  assumes i: "i < length qs"
    and gap: "\<And>j. j < length qs \<Longrightarrow> j \<noteq> i \<Longrightarrow> qs ! j \<le> qs ! i - D"
  shows "next_q_soft qs - next_q_max qs \<le> real (length qs - 1) * exp (- D)"
proof -
  have ne: "qs \<noteq> []" using i by auto
  let ?s = "sum_list (map (\<lambda>q. exp (q - next_q_max qs)) qs)"
  have pos: "0 < ?s" using ne by (rule sum_list_exp_pos)
  have "ln ?s \<le> ?s - 1" using pos by (rule ln_le_minus_one)
  also have "\<dots> \<le> real (length qs - 1) * exp (- D)"
    using sum_list_exp_spread [OF i gap] by simp
  finally show ?thesis by (simp add: next_q_soft_def)
qed

lemma spread_bound_small:
  fixes eps :: real
  assumes "0 < eps"
  shows "\<exists>D. real n * exp (- D) < eps"
proof (cases "n = 0")
  case True
  then show ?thesis using assms by simp
next
  case False
  define D where "D = ln (real n / eps) + 1"
  have pos: "0 < real n / eps" using False assms by simp
  have "exp (- D) = inverse (real n / eps) / exp 1"
    using pos by (simp add: D_def exp_diff exp_minus)
  then have "real n * exp (- D) = eps / exp 1"
    using False assms by (simp add: field_simps)
  also have "\<dots> < eps / 1"
    using assms by (intro divide_strict_left_mono) simp_all
  finally show ?thesis by auto
qed

lemma rounded_sum_ge_one:
  fixes rnd :: "real \<Rightarrow> real"
  assumes mono: "mono rnd" and r0: "rnd 0 = 0" and r1: "rnd 1 = 1"
    and nonneg: "\<And>x. x \<in> set xs \<Longrightarrow> 0 \<le> x"
    and start: "0 \<le> a" and one: "1 \<le> a \<or> 1 \<in> set xs"
  shows "1 \<le> foldl (\<lambda>s x. rnd (s + x)) a xs"
  using nonneg start one
proof (induction xs arbitrary: a)
  case Nil
  then show ?case by simp
next
  case (Cons x xs)
  have x: "0 \<le> x" using Cons.prems(1) by simp
  have "0 \<le> a + x" using x Cons.prems(2) by simp
  then have "rnd 0 \<le> rnd (a + x)" by (rule monoD [OF mono])
  then have a': "0 \<le> rnd (a + x)" by (simp add: r0)
  have "1 \<le> rnd (a + x) \<or> 1 \<in> set xs"
  proof (cases "1 \<le> a \<or> x = 1")
    case True
    then have "1 \<le> a + x" using x Cons.prems(2) by auto
    then have "rnd 1 \<le> rnd (a + x)" by (rule monoD [OF mono])
    then show ?thesis by (simp add: r1)
  next
    case False
    with Cons.prems(3) show ?thesis by auto
  qed
  with Cons.IH [of "rnd (a + x)"] Cons.prems(1) a' show ?case by simp
qed

lemma rounded_next_q_soft_ge_max:
  assumes mono: "mono rnd" and r0: "rnd 0 = 0" and r1: "rnd 1 = 1"
    and rm: "rnd (next_q_max qs) = next_q_max qs" and ne: "qs \<noteq> []"
  shows "next_q_max qs \<le> rounded_next_q_soft rnd qs"
proof -
  let ?m = "next_q_max qs"
  let ?exps = "map (\<lambda>q. rnd (exp (rnd (q - ?m)))) qs"
  have nonneg: "0 \<le> x" if "x \<in> set ?exps" for x
  proof -
    from that obtain q where "x = rnd (exp (rnd (q - ?m)))" by auto
    moreover have "0 \<le> exp (rnd (q - ?m))" by simp
    then have "rnd 0 \<le> rnd (exp (rnd (q - ?m)))" by (rule monoD [OF mono])
    ultimately show ?thesis by (simp add: r0)
  qed
  have "rnd (exp (rnd (?m - ?m))) \<in> (\<lambda>q. rnd (exp (rnd (q - ?m)))) ` set qs"
    using next_q_max_mem [OF ne] by (rule imageI)
  then have "1 \<in> set ?exps" by (simp add: r0 r1)
  with rounded_sum_ge_one [OF mono r0 r1 nonneg, of ?exps 0]
  have "1 \<le> foldl (\<lambda>s x. rnd (s + x)) 0 ?exps" by simp
  then have "0 \<le> ln (foldl (\<lambda>s x. rnd (s + x)) 0 ?exps)" by simp
  then have "rnd 0 \<le> rnd (ln (foldl (\<lambda>s x. rnd (s + x)) 0 ?exps))" by (rule monoD [OF mono])
  then have "?m \<le> ?m + rnd (ln (foldl (\<lambda>s x. rnd (s + x)) 0 ?exps))" by (simp add: r0)
  then have "rnd ?m \<le> rnd (?m + rnd (ln (foldl (\<lambda>s x. rnd (s + x)) 0 ?exps)))"
    by (rule monoD [OF mono])
  then show ?thesis by (simp add: rounded_next_q_soft_def Let_def rm)
qed

lemma rounded_next_q_soft_single:
  assumes "rnd 0 = 0" and "rnd 1 = 1" and "rnd q = q"
  shows "rounded_next_q_soft rnd [q] = q"
  using assms by (simp add: rounded_next_q_soft_def next_q_max_def)

lemma rounded_next_q_soft_exact: "rounded_next_q_soft (\<lambda>x. x) qs = next_q_soft qs"
proof -
  have "foldl (\<lambda>s x. s + x) a xs = a + sum_list xs" for a :: real and xs
    by (induction xs arbitrary: a) simp_all
  then show ?thesis by (simp add: rounded_next_q_soft_def next_q_soft_def Let_def)
qed

text \<open>
  Claim C9, amended. For every Q-value row with at least one action the soft value is at
  least the hard max, and equal to it when the row has a single action: in exact
  arithmetic, and with every operation rounded by any monotone rounding that keeps 0, 1
  and the maximum. In exact arithmetic the two are equal only for a single action. For
  every row length and every tolerance there is a spread \<open>D\<close> such that whenever one
  action leads all the others by at least \<open>D\<close>, the soft value is within the tolerance
  of the hard max: the soft value converges to the hard max as the spread grows.
\<close>

theorem soft_value_ge_hard_max:
  "(\<forall>qs. qs \<noteq> [] \<longrightarrow> next_q_max qs \<le> next_q_soft qs
                    \<and> (next_q_soft qs = next_q_max qs \<longleftrightarrow> length qs = 1))
   \<and> (\<forall>n eps. 0 < eps \<longrightarrow>
        (\<exists>D. \<forall>qs i. length qs = n \<and> i < n
                 \<and> (\<forall>j < n. j \<noteq> i \<longrightarrow> qs ! j \<le> qs ! i - D)
               \<longrightarrow> \<bar>next_q_soft qs - next_q_max qs\<bar> < eps))
   \<and> (\<forall>qs. rounded_next_q_soft (\<lambda>x. x) qs = next_q_soft qs)
   \<and> (\<forall>rnd qs. mono rnd \<and> rnd 0 = 0 \<and> rnd 1 = 1
                 \<and> rnd (next_q_max qs) = next_q_max qs \<and> qs \<noteq> []
               \<longrightarrow> next_q_max qs \<le> rounded_next_q_soft rnd qs
                   \<and> (length qs = 1 \<longrightarrow> rounded_next_q_soft rnd qs = next_q_max qs))"
proof (intro conjI allI impI)
  fix qs :: "real list" assume "qs \<noteq> []"
  then show "next_q_max qs \<le> next_q_soft qs" by (rule next_q_soft_ge_max)
next
  fix qs :: "real list" assume "qs \<noteq> []"
  then show "next_q_soft qs = next_q_max qs \<longleftrightarrow> length qs = 1" by (rule next_q_soft_eq_max_iff)
next
  fix n :: nat and eps :: real assume eps: "0 < eps"
  from spread_bound_small [OF eps, of "n - 1"]
  obtain D where D: "real (n - 1) * exp (- D) < eps" by blast
  show "\<exists>D. \<forall>qs i. length qs = n \<and> i < n
                 \<and> (\<forall>j < n. j \<noteq> i \<longrightarrow> qs ! j \<le> qs ! i - D)
               \<longrightarrow> \<bar>next_q_soft qs - next_q_max qs\<bar> < eps"
  proof (intro exI allI impI)
    fix qs :: "real list" and i
    assume h: "length qs = n \<and> i < n \<and> (\<forall>j < n. j \<noteq> i \<longrightarrow> qs ! j \<le> qs ! i - D)"
    then have i: "i < length qs" by simp
    have "next_q_soft qs - next_q_max qs \<le> real (length qs - 1) * exp (- D)"
      using h by (intro next_q_soft_spread [OF i]) auto
    moreover have "next_q_max qs \<le> next_q_soft qs"
      using i by (intro next_q_soft_ge_max) auto
    ultimately show "\<bar>next_q_soft qs - next_q_max qs\<bar> < eps"
      using D h by simp
  qed
next
  fix qs show "rounded_next_q_soft (\<lambda>x. x) qs = next_q_soft qs"
    by (rule rounded_next_q_soft_exact)
next
  fix rnd :: "real \<Rightarrow> real" and qs
  assume h: "mono rnd \<and> rnd 0 = 0 \<and> rnd 1 = 1
             \<and> rnd (next_q_max qs) = next_q_max qs \<and> qs \<noteq> []"
  then show "next_q_max qs \<le> rounded_next_q_soft rnd qs"
    by (intro rounded_next_q_soft_ge_max) simp_all
  assume "length qs = 1"
  then obtain q where q: "qs = [q]" by (cases qs) auto
  then have "next_q_max qs = q" by (simp add: next_q_max_def)
  with h q rounded_next_q_soft_single [of rnd q]
  show "rounded_next_q_soft rnd qs = next_q_max qs" by simp
qed

theorem soft_value_ge_hard_max_witness:
  "next_q_max [1, 3] \<le> next_q_soft [1, 3] \<and> next_q_soft [1, 3] \<noteq> next_q_max [1, 3]
   \<and> next_q_soft [2] = next_q_max [2]
   \<and> (\<exists>D. \<bar>next_q_soft [5 - D, 5 - D, 5] - next_q_max [5 - D, 5 - D, 5]\<bar> < 1 / 10)
   \<and> next_q_max [1, 3] \<le> rounded_next_q_soft (\<lambda>x. x) [1, 3]
   \<and> rounded_next_q_soft (\<lambda>x. x) [2] = next_q_max [2]"
proof -
  have a: "[1, 3 :: real] \<noteq> []" and b: "[2 :: real] \<noteq> []" by simp_all
  have c: "(0 :: real) < 1 / 10" by simp
  note sv = soft_value_ge_hard_max
  from sv [THEN conjunct1] a
  have 1: "next_q_max [1, 3] \<le> next_q_soft [1, 3]
           \<and> (next_q_soft [1, 3] = next_q_max [1, 3] \<longleftrightarrow> length [1, 3 :: real] = 1)"
    by blast
  from sv [THEN conjunct1] b
  have 2: "next_q_soft [2] = next_q_max [2] \<longleftrightarrow> length [2 :: real] = 1"
    by blast
  from sv [THEN conjunct2, THEN conjunct1] c
  obtain D where D: "\<forall>qs i. length qs = 3 \<and> i < 3
                 \<and> (\<forall>j < 3. j \<noteq> i \<longrightarrow> qs ! j \<le> qs ! i - D)
               \<longrightarrow> \<bar>next_q_soft qs - next_q_max qs\<bar> < 1 / 10"
    by blast
  have 3: "\<bar>next_q_soft [5 - D, 5 - D, 5] - next_q_max [5 - D, 5 - D, 5]\<bar> < 1 / 10"
    using D [rule_format, of "[5 - D, 5 - D, 5]" 2] by (simp add: less_Suc_eq numeral_3_eq_3)
  have m: "mono (\<lambda>x :: real. x)" by (simp add: mono_def)
  from sv [THEN conjunct2, THEN conjunct2, THEN conjunct2, rule_format,
      of "\<lambda>x. x" "[1, 3]"] m
  have 4: "next_q_max [1, 3] \<le> rounded_next_q_soft (\<lambda>x. x) [1, 3]" by simp
  from sv [THEN conjunct2, THEN conjunct2, THEN conjunct2, rule_format,
      of "\<lambda>x. x" "[2]"] m
  have 5: "rounded_next_q_soft (\<lambda>x. x) [2] = next_q_max [2]" by simp
  from 1 2 3 4 5 show ?thesis by auto
qed

lemma float32_lost_exponential:
  "0 \<le> float32 (exp (float32 (- 99 - 1)))" "float32 (exp (float32 (- 99 - 1))) \<le> 1 / 2 ^ 97"
proof -
  have "\<bar>float32 (- 100) - (- 100)\<bar> \<le> \<bar>- 100 :: real\<bar> / 2 ^ 24" by (rule float32_error)
  moreover have "\<bar>- 100 :: real\<bar> / 2 ^ 24 \<le> 1" by simp
  ultimately have "float32 (- 100) \<le> - 99" by linarith
  then have "exp (float32 (- 100)) \<le> exp (- 99)" by simp
  with exp_minus_99 have e: "exp (float32 (- 100)) \<le> 1 / 2 ^ 99" by linarith
  have p: "0 \<le> exp (float32 (- 100))" by simp
  from float32_nonneg [OF p] e
  show "0 \<le> float32 (exp (float32 (- 99 - 1)))" "float32 (exp (float32 (- 99 - 1))) \<le> 1 / 2 ^ 97"
    by simp_all
qed

text \<open>
  In \<^verbatim>\<open>float32\<close> arithmetic the soft value of the three actions \<open>[-99, -99, 1]\<close> is the
  hard max: the two exponentials \<open>exp (-100)\<close> are lost when they are added to 1.
\<close>

theorem soft_value_equals_max_counterexample:
  "length [- 99, - 99, 1 :: real] = 3
   \<and> rounded_next_q_soft float32 [- 99, - 99, 1] = next_q_max [- 99, - 99, 1]"
proof -
  define a where "a = float32 (exp (float32 (- 99 - 1)))"
  have a: "0 \<le> a" "a \<le> 1 / 2 ^ 97"
    unfolding a_def by (rule float32_lost_exponential)+
  have m: "next_q_max [- 99, - 99, 1] = 1" by (simp add: next_q_max_def)
  have one: "float32 (exp (float32 0)) = 1"
    by (simp add: float32_zero float32_near_one)
  define s1 where "s1 = float32 (0 + a)"
  define s2 where "s2 = float32 (s1 + a)"
  have s1: "0 \<le> s1" "s1 \<le> 2 * a" unfolding s1_def using float32_nonneg [of a] a by simp_all
  have "0 \<le> s1 + a" using s1 a by simp
  from float32_nonneg [OF this] have s2: "0 \<le> s2" "s2 \<le> 2 * (s1 + a)"
    unfolding s2_def by simp_all
  have "s2 \<le> 6 * a" using s1(2) s2(2) by argo
  also have "\<dots> \<le> 6 / 2 ^ 97" using a by simp
  also have "\<dots> < 1 / 2 ^ 24" by simp
  finally have small: "s2 < 1 / 2 ^ 24" .
  have total: "float32 (s2 + 1) = 1"
    using s2(1) small by (intro float32_near_one) simp_all
  have "rounded_next_q_soft float32 [- 99, - 99, 1] = float32 (1 + float32 (ln (float32 (s2 + 1))))"
    by (simp add: rounded_next_q_soft_def m one a_def s1_def s2_def Let_def)
  also have "\<dots> = 1" by (simp add: total float32_zero float32_near_one)
  finally show ?thesis using m by simp
qed

lemma next_q_soft_unfold:
  "next_q_soft q = Max (set q) + ln (\<Sum>a\<leftarrow>q. exp (a - Max (set q)))"
  by (simp add: next_q_soft_def next_q_max_def)

section \<open>The target computation\<close>

text \<open>
  Claim C1. For every experience batch whose columns have one length and whose next
  states all have at least one action, the target computation returns, row by row,
  \<open>reward + discount * (1 - is_state_terminal) * softvalue(next_state)\<close>, where
  \<open>softvalue\<close> is the stable log-sum-exp of the target network's Q-values,
  \<open>max\<^sub>a Q(s, a) + log (\<Sum>\<^sub>a exp (Q(s, a) - max\<^sub>a Q(s, a)))\<close>. The instance below differs
  from the target that the hard max would give.
\<close>

theorem compute_target_values_soft_bellman:
  assumes "length (batch_rewards b) = length (batch_next_state b)"
    and "length (batch_terminal b) = length (batch_next_state b)"
    and "length (discount b) = length (batch_next_state b)"
    and "[] \<notin> set (map q_target (batch_next_state b))"
  shows "compute_target_values q_target b =
           Inr (map (\<lambda>i. batch_rewards b ! i
                         + discount b ! i * (1 - batch_terminal b ! i)
                           * (Max (set (q_target (batch_next_state b ! i)))
                              + ln (\<Sum>a\<leftarrow>q_target (batch_next_state b ! i).
                                      exp (a - Max (set (q_target (batch_next_state b ! i)))))))
                  [0..<length (batch_next_state b)])"
  using assms by (simp add: compute_target_values_def Let_def next_q_soft_unfold)

theorem compute_target_values_soft_bellman_witness:
  "compute_target_values (\<lambda>_. [0, 0])
     \<lparr>batch_state = [[]], batch_actions = [0], batch_rewards = [3], batch_next_state = [[]],
      batch_terminal = [0], discount = [1 / 2], weights = None\<rparr> = Inr [3 + ln 2 / 2]
   \<and> 3 + ln 2 / 2 \<noteq> (3 + 1 / 2 * (1 - 0) * Max (set [0, 0 :: real]) :: real)"
  using compute_target_values_soft_bellman [of
     "\<lparr>batch_state = [[]], batch_actions = [0], batch_rewards = [3], batch_next_state = [[]],
      batch_terminal = [0], discount = [1 / 2], weights = None\<rparr>" "\<lambda>_. [0, 0]"]
  by simp

lemma compute_target_values_nth:
  assumes "compute_target_values q_target b = Inr ts" and "i < length ts"
  shows "ts ! i = batch_rewards b ! i
           + discount b ! i * (1 - batch_terminal b ! i)
             * next_q_soft (q_target (batch_next_state b ! i))"
    and "length ts = length (batch_next_state b)"
  using assms by (auto simp: compute_target_values_def Let_def split: if_splits)

lemma batch_experiences_one_step:
  assumes "batch_experiences experiences g = Inr b" and "i < length experiences"
    and "experiences ! i = [tr]"
  shows "batch_rewards b ! i = reward tr"
    and "batch_terminal b ! i = (if is_state_terminal tr then 1 else 0)"
    and "length (batch_next_state b) = length experiences"
  using assms by (auto simp: batch_experiences_def split: if_splits)

text \<open>
  Claim C7. In every row whose terminal flag is 1 the computed soft Bellman target is
  the row's reward, whatever the target network's Q-values at the next state; for a
  one-step experience, this is the reward of a transition with
  \<open>is_state_terminal = True\<close>.
\<close>

theorem terminal_target_is_reward:
  assumes "compute_target_values q_target b = Inr ts" and "i < length ts"
  shows "(batch_terminal b ! i = 1 \<longrightarrow> ts ! i = batch_rewards b ! i)
       \<and> (\<forall>experiences g tr.
            batch_experiences experiences g = Inr b \<and> experiences ! i = [tr]
            \<and> is_state_terminal tr \<longrightarrow> ts ! i = reward tr)"
proof (intro conjI allI impI)
  assume "batch_terminal b ! i = 1"
  then show "ts ! i = batch_rewards b ! i"
    using compute_target_values_nth(1) [OF assms] by simp
next
  fix experiences g tr
  assume h: "batch_experiences experiences g = Inr b \<and> experiences ! i = [tr]
             \<and> is_state_terminal tr"
  have i: "i < length experiences"
    using compute_target_values_nth(2) [OF assms] batch_experiences_one_step(3) [of experiences g b] h assms(2)
    by (auto simp: batch_experiences_def split: if_splits)
  from batch_experiences_one_step(1,2) [of experiences g b i tr] h i
  have "batch_rewards b ! i = reward tr" "batch_terminal b ! i = 1" by auto
  then show "ts ! i = reward tr"
    using compute_target_values_nth(1) [OF assms] by simp
qed

theorem terminal_target_is_reward_witness:
  "batch_experiences
     [[\<lparr>state = [], action = 0, reward = 5, next_state = [], next_action = None,
        is_state_terminal = True, weight = None\<rparr>]] (99 / 100)
   = Inr \<lparr>batch_state = [[]], batch_actions = [0], batch_rewards = [5], batch_next_state = [[]],
          batch_terminal = [1], discount = [99 / 100], weights = None\<rparr>
   \<and> compute_target_values (\<lambda>_. [1, 2])
        \<lparr>batch_state = [[]], batch_actions = [0], batch_rewards = [5], batch_next_state = [[]],
         batch_terminal = [1], discount = [99 / 100], weights = None\<rparr> = Inr [5]"
proof -
  let ?tr = "\<lparr>state = [], action = 0, reward = 5, next_state = [], next_action = None,
        is_state_terminal = True, weight = None\<rparr>"
  let ?b = "\<lparr>batch_state = [[]], batch_actions = [0], batch_rewards = [5], batch_next_state = [[]],
          batch_terminal = [1], discount = [99 / 100], weights = None\<rparr>"
  have be: "batch_experiences [[?tr]] (99 / 100) = Inr ?b"
    by (simp add: batch_experiences_def)
  obtain ts where ts: "compute_target_values (\<lambda>_. [1, 2]) ?b = Inr ts" and len: "length ts = 1"
    by (simp add: compute_target_values_def)
  then have i: "0 < length ts" by simp
  from terminal_target_is_reward [OF ts i] have "ts ! 0 = 5" by simp
  with len have "ts = [5]" by (cases ts) auto
  with be ts show ?thesis by simp
qed

section \<open>The combined loss\<close>

lemma SQIL_example: "SQIL example_args = Some (Inr example_agent)"
  by (simp add: SQIL_def example_args_def example_agent_def build_sampler_def
      sync_target_network_def args.extend_def agent.fields_def plain_buffer_def)


lemma compute_loss_of_parts:
  assumes "private_compute_loss self e = Inr (le, ye, ee)"
    and "private_compute_loss self d = Inr (ld, yd, ed)"
  shows "compute_loss self e d = Inr ((le * experience_lambda self + ld) / 2, ye @ yd, ee)"
  using assms by (simp add: compute_loss_def bind_err_def)

lemma blend_swap_iff:
  fixes le ld lam :: real
  shows "(le * lam + ld) / 2 = (ld * lam + le) / 2 \<longleftrightarrow> lam = 1 \<or> le = ld"
proof -
  have half: "a / 2 = b / 2 \<longleftrightarrow> a = b" for a b :: real
    by simp
  have "(le * lam + ld) / 2 = (ld * lam + le) / 2 \<longleftrightarrow> le * lam + ld = ld * lam + le"
    by (rule half)
  also have "\<dots> \<longleftrightarrow> (le - ld) * (lam - 1) = 0"
    by (auto simp: algebra_simps)
  also have "\<dots> \<longleftrightarrow> lam = 1 \<or> le = ld"
    by auto
  finally show ?thesis .
qed


lemma private_compute_loss_single_row:
  assumes "target_model self = Some tm"
    and "batch_accumulator self = ''mean'' \<or> batch_accumulator self = ''sum''"
    and "forward self (model self) s \<noteq> []" and "forward self tm s' \<noteq> []"
  shows "private_compute_loss self (single_row s s' r) =
           Inr (if clip_delta self then smooth_l1_loss (forward self (model self) s ! 0) r
                else mse_loss (forward self (model self) s ! 0) r / 2,
                [forward self (model self) s ! 0],
                [\<bar>forward self (model self) s ! 0 - r\<bar>])"
  using assms
  by (auto simp: private_compute_loss_def compute_y_and_t_def evaluate_actions_def
      compute_target_values_def compute_value_loss_def reduction_def bind_err_def single_row_def
      Let_def)

lemma example_agent_simps:
  "model example_agent = \<lparr>params = [1, 2], net_training = True\<rparr>"
  "target_model example_agent = Some \<lparr>params = [1, 2], net_training = False\<rparr>"
  "forward example_agent = (\<lambda>net ob. params net)"
  "batch_accumulator example_agent = ''mean''"
  "clip_delta example_agent = True"
  "experience_lambda example_agent = 2"
  by (simp_all add: example_agent_def example_args_def args.extend_def agent.fields_def)

text \<open>
  Claim C2. Whenever the losses of the two batches are defined, the combined loss is
  \<open>(loss(exp_batch) * experience_lambda + loss(demo_batch)) / 2\<close>, and swapping the
  roles of the two batches leaves its value unchanged exactly when
  \<open>experience_lambda = 1\<close> or the two losses are equal. Hence the loss is invariant
  under the swap for all batches when \<open>experience_lambda = 1\<close>, and when
  \<open>experience_lambda \<noteq> 1\<close> (and the networks have an action to evaluate) there are
  batches \<open>e\<close>, \<open>d\<close> with different losses for which the swap changes the value.
\<close>

theorem combined_loss_swap:
  fixes self :: "'rb agent"
  shows "(\<forall>e d le ye ee ld yd ed.
            private_compute_loss self e = Inr (le, ye, ee)
            \<and> private_compute_loss self d = Inr (ld, yd, ed)
            \<longrightarrow> compute_loss self e d
                  = Inr ((le * experience_lambda self + ld) / 2, ye @ yd, ee)
                \<and> (map_sum id fst (compute_loss self e d)
                     = map_sum id fst (compute_loss self d e)
                   \<longleftrightarrow> experience_lambda self = 1 \<or> le = ld))
       \<and> (\<forall>tm s s'.
            target_model self = Some tm
            \<and> (batch_accumulator self = ''mean'' \<or> batch_accumulator self = ''sum'')
            \<and> forward self (model self) s \<noteq> [] \<and> forward self tm s' \<noteq> []
            \<and> experience_lambda self \<noteq> 1
            \<longrightarrow> (\<exists>e d le ye ee ld yd ed.
                   private_compute_loss self e = Inr (le, ye, ee)
                   \<and> private_compute_loss self d = Inr (ld, yd, ed)
                   \<and> le \<noteq> ld
                   \<and> map_sum id fst (compute_loss self e d)
                       \<noteq> map_sum id fst (compute_loss self d e)))"
proof (intro conjI allI impI)
  fix e d le ye ee ld yd ed
  assume h: "private_compute_loss self e = Inr (le, ye, ee)
             \<and> private_compute_loss self d = Inr (ld, yd, ed)"
  then show "compute_loss self e d
             = Inr ((le * experience_lambda self + ld) / 2, ye @ yd, ee)"
    by (simp add: compute_loss_of_parts)
  from h have "compute_loss self e d
               = Inr ((le * experience_lambda self + ld) / 2, ye @ yd, ee)"
    and "compute_loss self d e
               = Inr ((ld * experience_lambda self + le) / 2, yd @ ye, ed)"
    by (simp_all add: compute_loss_of_parts)
  then show "map_sum id fst (compute_loss self e d) = map_sum id fst (compute_loss self d e)
             \<longleftrightarrow> experience_lambda self = 1 \<or> le = ld"
    using blend_swap_iff [of le "experience_lambda self" ld] by simp
next
  fix tm s s'
  assume h: "target_model self = Some tm
            \<and> (batch_accumulator self = ''mean'' \<or> batch_accumulator self = ''sum'')
            \<and> forward self (model self) s \<noteq> [] \<and> forward self tm s' \<noteq> []
            \<and> experience_lambda self \<noteq> 1"
  define y where "y = forward self (model self) s ! 0"
  define l0 where "l0 = (if clip_delta self then smooth_l1_loss y y else mse_loss y y / 2)"
  define l1 where "l1 = (if clip_delta self then smooth_l1_loss y (y + 1)
                         else mse_loss y (y + 1) / 2)"
  have e: "private_compute_loss self (single_row s s' y) = Inr (l0, [y], [\<bar>y - y\<bar>])"
    unfolding l0_def y_def using h by (intro private_compute_loss_single_row) auto
  have d: "private_compute_loss self (single_row s s' (y + 1))
           = Inr (l1, [y], [\<bar>y - (y + 1)\<bar>])"
    unfolding l1_def y_def using h by (intro private_compute_loss_single_row) auto
  have l0: "l0 = 0" and l1: "l1 = 1 / 2"
    by (simp_all add: l0_def l1_def smooth_l1_loss_def mse_loss_def)
  have ne: "l0 \<noteq> l1" using l0 l1 by simp
  have "(l0 * experience_lambda self + l1) / 2 \<noteq> (l1 * experience_lambda self + l0) / 2"
    using blend_swap_iff [of l0 "experience_lambda self" l1] h ne by simp
  then have "map_sum id fst (compute_loss self (single_row s s' y) (single_row s s' (y + 1)))
             \<noteq> map_sum id fst (compute_loss self (single_row s s' (y + 1)) (single_row s s' y))"
    using compute_loss_of_parts [OF e d] compute_loss_of_parts [OF d e] by simp
  with e d ne show "\<exists>e d le ye ee ld yd ed.
                   private_compute_loss self e = Inr (le, ye, ee)
                   \<and> private_compute_loss self d = Inr (ld, yd, ed)
                   \<and> le \<noteq> ld
                   \<and> map_sum id fst (compute_loss self e d)
                       \<noteq> map_sum id fst (compute_loss self d e)"
    by blast
qed

theorem combined_loss_swap_witness:
  "map_sum id fst (compute_loss example_agent (single_row [] [] 1) (single_row [] [] 2))
     = Inr (1 / 4)
   \<and> map_sum id fst (compute_loss example_agent (single_row [] [] 2) (single_row [] [] 1))
     = Inr (1 / 2)
   \<and> (\<exists>e d. map_sum id fst (compute_loss example_agent e d)
              \<noteq> map_sum id fst (compute_loss example_agent d e))"
proof -
  have e: "private_compute_loss example_agent (single_row [] [] 1) = Inr (0, [1], [0])"
    using private_compute_loss_single_row
      [of example_agent "\<lparr>params = [1, 2], net_training = False\<rparr>" "[]" "[]" 1]
    by (simp add: example_agent_simps smooth_l1_loss_def)
  have d: "private_compute_loss example_agent (single_row [] [] 2) = Inr (1 / 2, [1], [1])"
    using private_compute_loss_single_row
      [of example_agent "\<lparr>params = [1, 2], net_training = False\<rparr>" "[]" "[]" 2]
    by (simp add: example_agent_simps smooth_l1_loss_def)
  from combined_loss_swap [of example_agent] e d
  have 1: "compute_loss example_agent (single_row [] [] 1) (single_row [] [] 2)
           = Inr ((0 * experience_lambda example_agent + 1 / 2) / 2, [1] @ [1], [0])"
    by blast
  from combined_loss_swap [of example_agent] e d
  have 2: "compute_loss example_agent (single_row [] [] 2) (single_row [] [] 1)
           = Inr ((1 / 2 * experience_lambda example_agent + 0) / 2, [1] @ [1], [1])"
    by blast
  have nd: "target_model example_agent = Some \<lparr>params = [1, 2], net_training = False\<rparr>
            \<and> (batch_accumulator example_agent = ''mean''
                \<or> batch_accumulator example_agent = ''sum'')
            \<and> forward example_agent (model example_agent) [] \<noteq> []
            \<and> forward example_agent \<lparr>params = [1, 2], net_training = False\<rparr> [] \<noteq> []
            \<and> experience_lambda example_agent \<noteq> 1"
    by (simp add: example_agent_simps)
  from combined_loss_swap [of example_agent] nd
  have 3: "\<exists>e d. map_sum id fst (compute_loss example_agent e d)
              \<noteq> map_sum id fst (compute_loss example_agent d e)"
    by blast
  from 1 2 3 show ?thesis by (simp add: example_agent_simps)
qed

section \<open>Target synchronization\<close>

lemma blend_strictly_between:
  fixes tau a b :: real
  assumes "0 < tau" and "tau < 1" and "a \<noteq> b"
  shows "min a b < (1 - tau) * a + tau * b" and "(1 - tau) * a + tau * b < max a b"
proof -
  have eq: "(1 - tau) * a + tau * b = a + tau * (b - a)" by (simp add: algebra_simps)
  have eq': "(1 - tau) * a + tau * b = b - (1 - tau) * (b - a)" by (simp add: algebra_simps)
  show "min a b < (1 - tau) * a + tau * b"
  proof (cases "a < b")
    case True
    then have "0 < tau * (b - a)" using assms by simp
    with True show ?thesis unfolding eq by simp
  next
    case False
    with assms have ba: "b < a" by simp
    then have "(1 - tau) * (b - a) < 0" using assms by (simp add: mult_pos_neg)
    with ba show ?thesis unfolding eq' by simp
  qed
  show "(1 - tau) * a + tau * b < max a b"
  proof (cases "a < b")
    case True
    then have "0 < (1 - tau) * (b - a)" using assms by simp
    with True show ?thesis unfolding eq' by simp
  next
    case False
    with assms have ba: "b < a" by simp
    then have "tau * (b - a) < 0" using assms by (simp add: mult_pos_neg)
    with ba show ?thesis unfolding eq by simp
  qed
qed

text \<open>
  Claim C8, amended. The first sync, with no target network yet, makes the target a
  clone of the online network in evaluation mode. After that, in \<open>hard\<close> mode a sync
  makes every target parameter equal to the online one, and in \<open>soft\<close> mode it sets
  each target parameter to \<open>(1 - tau) * target + tau * online\<close>; when
  \<open>0 < tau < 1\<close> and the two values differ, the result lies strictly between them.
\<close>

theorem sync_target_network_modes:
  fixes self :: "'rb agent"
  shows "(target_model self = None \<longrightarrow>
            sync_target_network self
            = Inr (self\<lparr>target_model := Some \<lparr>params = params (model self), net_training = False\<rparr>\<rparr>))
       \<and> (\<forall>dst. target_model self = Some dst \<and> target_update_method self = ''hard'' \<longrightarrow>
            sync_target_network self
            = Inr (self\<lparr>target_model := Some (dst\<lparr>params := params (model self)\<rparr>)\<rparr>))
       \<and> (\<forall>dst. target_model self = Some dst \<and> target_update_method self = ''soft''
                 \<and> length (params dst) = length (params (model self)) \<longrightarrow>
            (\<exists>dst'. sync_target_network self = Inr (self\<lparr>target_model := Some dst'\<rparr>)
               \<and> length (params dst') = length (params dst)
               \<and> (\<forall>i < length (params dst).
                     params dst' ! i
                     = (1 - soft_update_tau self) * params dst ! i
                       + soft_update_tau self * params (model self) ! i
                     \<and> (0 < soft_update_tau self \<and> soft_update_tau self < 1
                        \<and> params dst ! i \<noteq> params (model self) ! i \<longrightarrow>
                          min (params dst ! i) (params (model self) ! i) < params dst' ! i
                          \<and> params dst' ! i < max (params dst ! i) (params (model self) ! i)))))"
proof (intro conjI allI impI)
  assume "target_model self = None"
  moreover have "(model self)\<lparr>net_training := False\<rparr>
                 = \<lparr>params = params (model self), net_training = False\<rparr>"
    by simp
  ultimately show "sync_target_network self
        = Inr (self\<lparr>target_model := Some \<lparr>params = params (model self), net_training = False\<rparr>\<rparr>)"
    by (simp add: sync_target_network_def)
next
  fix dst
  assume "target_model self = Some dst \<and> target_update_method self = ''hard''"
  then show "sync_target_network self
            = Inr (self\<lparr>target_model := Some (dst\<lparr>params := params (model self)\<rparr>)\<rparr>)"
    by (simp add: sync_target_network_def synchronize_parameters_def bind_err_def)
next
  fix dst
  assume h: "target_model self = Some dst \<and> target_update_method self = ''soft''
                 \<and> length (params dst) = length (params (model self))"
  define dst' where "dst' = dst\<lparr>params := map2 (\<lambda>target_value source_value.
                         (1 - soft_update_tau self) * target_value
                         + soft_update_tau self * source_value)
                       (params dst) (params (model self))\<rparr>"
  have s: "sync_target_network self = Inr (self\<lparr>target_model := Some dst'\<rparr>)"
    using h by (simp add: sync_target_network_def synchronize_parameters_def bind_err_def dst'_def)
  have len: "length (params dst') = length (params dst)"
    using h by (simp add: dst'_def)
  have nth: "params dst' ! i
             = (1 - soft_update_tau self) * params dst ! i
               + soft_update_tau self * params (model self) ! i"
    if "i < length (params dst)" for i
    using that h by (simp add: dst'_def)
  show "\<exists>dst'. sync_target_network self = Inr (self\<lparr>target_model := Some dst'\<rparr>)
               \<and> length (params dst') = length (params dst)
               \<and> (\<forall>i < length (params dst).
                     params dst' ! i
                     = (1 - soft_update_tau self) * params dst ! i
                       + soft_update_tau self * params (model self) ! i
                     \<and> (0 < soft_update_tau self \<and> soft_update_tau self < 1
                        \<and> params dst ! i \<noteq> params (model self) ! i \<longrightarrow>
                          min (params dst ! i) (params (model self) ! i) < params dst' ! i
                          \<and> params dst' ! i < max (params dst ! i) (params (model self) ! i)))"
  proof (intro exI [of _ dst'] conjI allI impI s len)
    fix i assume "i < length (params dst)"
    then show "params dst' ! i
                     = (1 - soft_update_tau self) * params dst ! i
                       + soft_update_tau self * params (model self) ! i"
      by (rule nth)
  next
    fix i
    assume i: "i < length (params dst)"
      and t: "0 < soft_update_tau self \<and> soft_update_tau self < 1
              \<and> params dst ! i \<noteq> params (model self) ! i"
    from t blend_strictly_between(1) [of "soft_update_tau self" "params dst ! i" "params (model self) ! i"]
    show "min (params dst ! i) (params (model self) ! i) < params dst' ! i"
      by (simp add: nth [OF i])
  next
    fix i
    assume i: "i < length (params dst)"
      and t: "0 < soft_update_tau self \<and> soft_update_tau self < 1
              \<and> params dst ! i \<noteq> params (model self) ! i"
    from t blend_strictly_between(2) [of "soft_update_tau self" "params dst ! i" "params (model self) ! i"]
    show "params dst' ! i < max (params dst ! i) (params (model self) ! i)"
      by (simp add: nth [OF i])
  qed
qed

lemma example_agent_sync_simps:
  "target_update_method example_agent = ''hard''"
  "soft_update_tau example_agent = 1 / 100"
  by (simp_all add: example_agent_def example_args_def args.extend_def agent.fields_def)


theorem sync_target_network_modes_witness:
  "sync_target_network (example_agent\<lparr>target_model := None\<rparr>)
     = Inr (example_agent\<lparr>target_model := Some \<lparr>params = [1, 2], net_training = False\<rparr>\<rparr>)
   \<and> sync_target_network (example_agent\<lparr>model := \<lparr>params = [3, 4], net_training = True\<rparr>\<rparr>)
     = Inr (example_agent\<lparr>model := \<lparr>params = [3, 4], net_training = True\<rparr>,
                           target_model := Some \<lparr>params = [3, 4], net_training = False\<rparr>\<rparr>)
   \<and> (\<exists>dst'. sync_target_network
               (example_agent\<lparr>model := \<lparr>params = [3, 4], net_training = True\<rparr>,
                              target_update_method := ''soft'', soft_update_tau := 1 / 2\<rparr>)
             = Inr (example_agent\<lparr>model := \<lparr>params = [3, 4], net_training = True\<rparr>,
                                   target_update_method := ''soft'', soft_update_tau := 1 / 2,
                                   target_model := Some dst'\<rparr>)
             \<and> params dst' ! 0 = 2 \<and> 1 < params dst' ! 0 \<and> params dst' ! 0 < 3)"
proof -
  let ?tm = "\<lparr>params = [1, 2 :: real], net_training = False\<rparr>"
  let ?m = "\<lparr>params = [3, 4 :: real], net_training = True\<rparr>"
  let ?soft = "example_agent\<lparr>model := ?m, target_update_method := ''soft'',
                             soft_update_tau := 1 / 2\<rparr>"
  have 1: "sync_target_network (example_agent\<lparr>target_model := None\<rparr>)
     = Inr (example_agent\<lparr>target_model := Some ?tm\<rparr>)"
    using sync_target_network_modes [of "example_agent\<lparr>target_model := None\<rparr>"]
    by (simp add: example_agent_simps example_agent_sync_simps)
  have 2: "sync_target_network (example_agent\<lparr>model := ?m\<rparr>)
     = Inr (example_agent\<lparr>model := ?m,
                           target_model := Some \<lparr>params = [3, 4], net_training = False\<rparr>\<rparr>)"
    using sync_target_network_modes [of "example_agent\<lparr>model := ?m\<rparr>"]
    by (simp add: example_agent_simps example_agent_sync_simps)
  have h: "target_model ?soft = Some ?tm \<and> target_update_method ?soft = ''soft''
           \<and> length (params ?tm) = length (params (model ?soft))"
    by (simp add: example_agent_simps example_agent_sync_simps)
  from sync_target_network_modes [of ?soft] h
  obtain dst' where s: "sync_target_network ?soft = Inr (?soft\<lparr>target_model := Some dst'\<rparr>)"
    and n: "\<forall>i < length (params ?tm).
                     params dst' ! i
                     = (1 - soft_update_tau ?soft) * params ?tm ! i
                       + soft_update_tau ?soft * params (model ?soft) ! i
                     \<and> (0 < soft_update_tau ?soft \<and> soft_update_tau ?soft < 1
                        \<and> params ?tm ! i \<noteq> params (model ?soft) ! i \<longrightarrow>
                          min (params ?tm ! i) (params (model ?soft) ! i) < params dst' ! i
                          \<and> params dst' ! i < max (params ?tm ! i) (params (model ?soft) ! i))"
    by blast
  from n [rule_format, of 0] have "params dst' ! 0 = 2 \<and> 1 < params dst' ! 0 \<and> params dst' ! 0 < 3"
    by simp
  with s have 3: "\<exists>dst'. sync_target_network ?soft = Inr (?soft\<lparr>target_model := Some dst'\<rparr>)
             \<and> params dst' ! 0 = 2 \<and> 1 < params dst' ! 0 \<and> params dst' ! 0 < 3"
    by blast
  from 1 2 3 show ?thesis by simp
qed

text \<open>
  With \<open>tau = 1\<close>, which the agent accepts, a soft sync is a full copy: the new target
  parameter is the online one, not strictly between the old target and the online value.
\<close>

theorem sync_soft_tau_one_counterexample:
  "map_sum id (\<lambda>self. map_option params (target_model self))
     (sync_target_network
        (example_agent\<lparr>model := \<lparr>params = [3, 4], net_training = True\<rparr>,
                       target_update_method := ''soft'', soft_update_tau := 1\<rparr>))
   = Inr (Some [3, 4])
   \<and> map_option params (target_model example_agent) = Some [1, 2]
   \<and> \<not> ([3, 4 :: real] ! 0 < max ([1, 2] ! 0) ([3, 4] ! 0))"
  by (simp add: sync_target_network_def synchronize_parameters_def bind_err_def
      example_agent_simps)

section \<open>The reward-based sampler\<close>

lemma filter_length_mono:
  assumes "\<And>x. x \<in> set xs \<Longrightarrow> P x \<Longrightarrow> Q x"
  shows "length (filter P xs) \<le> length (filter Q xs)"
  using assms by (induction xs) auto

text \<open>
  Claim C6. For every observation (an array with a first entry in the first row of each
  channel) and every non-empty list of reward boundaries, the policy index is defined and
  lies in \<open>[0, len(reward_boundaries)]\<close>, so it selects one of the
  \<open>len(reward_boundaries) + 1\<close> buckets. The cumulative return \<open>c\<close> is read from the first
  entry of the first row of the last channel. When the last boundary is not 0 the index
  is the number of boundaries \<open>b\<close> for which \<open>b / last - 1e-8\<close>, computed in \<^verbatim>\<open>float64\<close>,
  lies below \<open>c\<close>; for normalised boundaries of magnitude at most 1000 it counts every
  boundary with \<open>b / last \<le> c\<close> and no boundary with \<open>b / last \<ge> c + 2e-8\<close>.
\<close>

theorem policy_index_counts_boundaries:
  assumes "rectangular ob" and "ob \<noteq> []" and "hd ob \<noteq> []" and "hd (hd ob) \<noteq> []"
    and "bs \<noteq> []"
  shows "\<exists>k. policy_index bs ob = Inr k
             \<and> k \<le> length bs \<and> k < length bs + 1
             \<and> (last bs \<noteq> 0 \<longrightarrow>
                  k = length (filter (\<lambda>b. float64 (float64 (b / last bs) - float64 (1 / 10 ^ 8))
                                        < hd (hd (last ob))) bs)
                  \<and> k = card {i. i < length bs
                                \<and> float64 (float64 (bs ! i / last bs) - float64 (1 / 10 ^ 8))
                                   < hd (hd (last ob))}
                  \<and> ((\<forall>b \<in> set bs. \<bar>b / last bs\<bar> \<le> 1000) \<longrightarrow>
                       length (filter (\<lambda>b. b / last bs \<le> hd (hd (last ob))) bs) \<le> k
                       \<and> k \<le> length (filter (\<lambda>b. b / last bs - 2 / 10 ^ 8
                                                  < hd (hd (last ob))) bs)))"
proof -
  define c where "c = hd (hd (last ob))"
  define k where "k = length (filter (exceeds c (last bs)) bs)"
  have cr: "cum_reward ob = Inr c"
    unfolding c_def by (rule cum_reward_entry) fact+
  have p: "policy_index bs ob = Inr k"
    using cr assms(5) by (simp add: policy_index_def bind_err_def k_def)
  have le: "k \<le> length bs" by (simp add: k_def)
  have f: "k = length (filter (\<lambda>b. float64 (float64 (b / last bs) - float64 (1 / 10 ^ 8)) < c) bs)"
    if "last bs \<noteq> 0"
  proof -
    have "exceeds c (last bs)
          = (\<lambda>b. float64 (float64 (b / last bs) - float64 (1 / 10 ^ 8)) < c)"
      using that by (auto simp: exceeds_def threshold_def fun_eq_iff)
    then show ?thesis by (simp add: k_def)
  qed
  have g: "k = card {i. i < length bs
                     \<and> float64 (float64 (bs ! i / last bs) - float64 (1 / 10 ^ 8)) < c}"
    if "last bs \<noteq> 0"
    using f [OF that] by (simp add: length_filter_conv_card)
  have lo: "length (filter (\<lambda>b. b / last bs \<le> c) bs) \<le> k"
    if "last bs \<noteq> 0" and "\<forall>b \<in> set bs. \<bar>b / last bs\<bar> \<le> 1000"
    unfolding k_def
  proof (rule filter_length_mono)
    fix b assume "b \<in> set bs" and "b / last bs \<le> c"
    with that show "exceeds c (last bs) b"
      by (intro exceeds_at_or_above [of "last bs" b c]) blast+
  qed
  have hi: "k \<le> length (filter (\<lambda>b. b / last bs - 2 / 10 ^ 8 < c) bs)"
    if "last bs \<noteq> 0" and "\<forall>b \<in> set bs. \<bar>b / last bs\<bar> \<le> 1000"
    unfolding k_def
  proof (rule filter_length_mono)
    fix b assume "b \<in> set bs" and "exceeds c (last bs) b"
    with that show "b / last bs - 2 / 10 ^ 8 < c"
      by (intro exceeds_within_tolerance [of "last bs" b c]) blast+
  qed
  from p le f g lo hi show ?thesis unfolding c_def by auto
qed

theorem policy_index_counts_boundaries_witness:
  "policy_index [1, 2, 4] [[[0, 3]], [[1 / 2, 7]]] = Inr 2"
proof -
  let ?ob = "[[[0, 3]], [[1 / 2, 7 :: real]]]"
  let ?bs = "[1, 2, 4 :: real]"
  have r: "rectangular ?ob" by (simp add: rectangular_def)
  have ne: "?ob \<noteq> []" "hd ?ob \<noteq> []" "hd (hd ?ob) \<noteq> []" "?bs \<noteq> []" by simp_all
  have b: "\<forall>b \<in> set ?bs. \<bar>b / last ?bs\<bar> \<le> 1000" by simp
  from policy_index_counts_boundaries [OF r ne]
  obtain k where k: "policy_index ?bs ?ob = Inr k"
    and lo: "length (filter (\<lambda>b. b / last ?bs \<le> hd (hd (last ?ob))) ?bs) \<le> k"
    and hi: "k \<le> length (filter (\<lambda>b. b / last ?bs - 2 / 10 ^ 8 < hd (hd (last ?ob))) ?bs)"
    using b by auto
  from lo hi have "k = 2" by simp
  with k show ?thesis by simp
qed

lemma rbuf_append_bounded:
  assumes "capacity rbuf = Some m" and "length (memory rbuf) \<le> m"
  shows "capacity (rbuf_append rbuf tr) = Some m"
    and "length (memory (rbuf_append rbuf tr)) \<le> m"
    and "length (memory rbuf) = m \<Longrightarrow> length (memory (rbuf_append rbuf tr)) = m"
  using assms by (auto simp: rbuf_append_def Let_def)

lemma list_all_update:
  assumes "list_all P xs" and "P x"
  shows "list_all P (xs[k := x])"
  using assms by (auto simp: list_all_iff dest: set_update_subset_insert [THEN subsetD])

lemma update_buffer_Suc_Inr:
  assumes "update_buffer (Suc n) s = Inr s'"
  shows "\<exists>k ds tr. k < length (replay_buffers s)
           \<and> update_buffer n
               (s\<lparr>rbs_expert_dataset := ds,
                  replay_buffers := (replay_buffers s)
                    [k := rbuf_append (replay_buffers s ! k) tr]\<rparr>) = Inr s'"
proof -
  obtain d ds where d: "dataset_sample (rbs_expert_dataset s) = (d, ds)"
    by (cases "dataset_sample (rbs_expert_dataset s)")
  with assms obtain k where "policy_index (rbs_reward_boundaries s) (demo_ob d) = Inr k"
    and "k < length (replay_buffers s)"
    and "update_buffer n
           (s\<lparr>rbs_expert_dataset := ds,
              replay_buffers := (replay_buffers s)
                [k := rbuf_append (replay_buffers s ! k)
                   \<lparr>state = demo_ob d, action = demo_act d, reward = rbs_reward_scale s,
                    next_state = demo_next_ob d, next_action = None,
                    is_state_terminal = demo_done d, weight = None\<rparr>]\<rparr>) = Inr s'"
    by (auto simp: bind_err_def split: sum.splits if_splits)
  then show ?thesis by blast
qed

lemma update_buffer_preserves:
  assumes "update_buffer n s = Inr s'" and "P s"
    and step: "\<And>s k ds tr. P s \<Longrightarrow> k < length (replay_buffers s) \<Longrightarrow>
             P (s\<lparr>rbs_expert_dataset := ds,
                  replay_buffers := (replay_buffers s)
                    [k := rbuf_append (replay_buffers s ! k) tr]\<rparr>)"
  shows "P s'"
  using assms(1,2)
proof (induction n arbitrary: s)
  case 0
  then show ?case by simp
next
  case (Suc n)
  from update_buffer_Suc_Inr [OF Suc.prems(1)]
  obtain k ds tr where k: "k < length (replay_buffers s)"
    and rec: "update_buffer n
               (s\<lparr>rbs_expert_dataset := ds,
                  replay_buffers := (replay_buffers s)
                    [k := rbuf_append (replay_buffers s ! k) tr]\<rparr>) = Inr s'"
    by blast
  show ?case
    by (rule Suc.IH [OF rec]) (rule step [OF Suc.prems(2) k])
qed

lemma update_buffer_keeps:
  assumes "update_buffer n s = Inr s'"
  shows "rbs_reward_boundaries s' = rbs_reward_boundaries s"
    and "rng s' = rng s" and "rng_pos s' = rng_pos s"
proof -
  show "rbs_reward_boundaries s' = rbs_reward_boundaries s"
    by (rule update_buffer_preserves
          [OF assms, of "\<lambda>x. rbs_reward_boundaries x = rbs_reward_boundaries s"]) simp_all
  show "rng s' = rng s"
    by (rule update_buffer_preserves [OF assms, of "\<lambda>x. rng x = rng s"]) simp_all
  show "rng_pos s' = rng_pos s"
    by (rule update_buffer_preserves [OF assms, of "\<lambda>x. rng_pos x = rng_pos s"]) simp_all
qed

lemma update_buffer_bounded:
  assumes "update_buffer n s = Inr s'" and "buckets_bounded m s"
  shows "buckets_bounded m s'"
proof (rule update_buffer_preserves [where P = "buckets_bounded m", OF assms])
  fix s :: sampler and k ds tr
  assume b: "buckets_bounded m s" and k: "k < length (replay_buffers s)"
  then have "capacity (replay_buffers s ! k) = Some m"
    "length (memory (replay_buffers s ! k)) \<le> m"
    by (auto simp: buckets_bounded_def list_all_length)
  then show "buckets_bounded m (s\<lparr>rbs_expert_dataset := ds,
                  replay_buffers := (replay_buffers s)
                    [k := rbuf_append (replay_buffers s ! k) tr]\<rparr>)"
    using b by (auto simp: buckets_bounded_def rbuf_append_bounded intro!: list_all_update)
qed

lemma update_buffer_full:
  assumes "update_buffer n s = Inr s'" and "buckets_full m s"
  shows "buckets_full m s'"
proof (rule update_buffer_preserves [where P = "buckets_full m", OF assms])
  fix s :: sampler and k ds tr
  assume b: "buckets_full m s" and k: "k < length (replay_buffers s)"
  then have "capacity (replay_buffers s ! k) = Some m"
    "length (memory (replay_buffers s ! k)) = m"
    by (auto simp: buckets_full_def list_all_length)
  then show "buckets_full m (s\<lparr>rbs_expert_dataset := ds,
                  replay_buffers := (replay_buffers s)
                    [k := rbuf_append (replay_buffers s ! k) tr]\<rparr>)"
    using b by (auto simp: buckets_full_def rbuf_append_bounded intro!: list_all_update)
qed

lemma fill_buffers_full:
  assumes "fill_buffers m s = Some (Inr s')" and "buckets_bounded m s"
  shows "buckets_full m s' \<and> rbs_reward_boundaries s' = rbs_reward_boundaries s"
  using assms
proof (induction m s "Inr s' :: error + sampler" rule: fill_buffers.raw_induct [rotated 1, consumes 1])
  case (1 fill m s)
  show ?case
  proof (cases "list_ex (\<lambda>rbuf. length (memory rbuf) < m) (replay_buffers s)")
    case True
    with 1(2) obtain s1 where u: "update_buffer m s = Inr s1"
      and f: "fill m s1 = Some (Inr s')"
      by (auto split: sum.splits)
    from update_buffer_bounded [OF u 1(3)] have "buckets_bounded m s1" .
    from 1(1) [OF f this] update_buffer_keeps(1) [OF u] show ?thesis by simp
  next
    case False
    with 1(2) have eq: "s' = s" by simp
    from False 1(3) have "buckets_full m s"
      by (fastforce simp: buckets_full_def buckets_bounded_def list_all_iff list_ex_iff not_less
          intro: le_antisym)
    with eq show ?thesis by simp
  qed
qed

lemma RewardBasedSampler_full:
  assumes "RewardBasedSampler ds bs m r rnd = Some (Inr s)"
  shows "buckets_full m s \<and> rbs_reward_boundaries s = bs"
proof -
  have "buckets_bounded m
       \<lparr>rbs_expert_dataset = ds, rbs_reward_boundaries = bs,
        replay_buffers = replicate (length bs + 1) \<lparr>capacity = Some m, memory = []\<rparr>,
        rbs_reward_scale = r, rng = rnd, rng_pos = 0\<rparr>"
    by (simp add: buckets_bounded_def list_all_iff)
  from fill_buffers_full [OF assms [unfolded RewardBasedSampler_def] this]
  show ?thesis by simp
qed

lemma sample_distinct_length:
  "k \<le> length xs \<Longrightarrow> length (sample_distinct rnd xs k) = k"
proof (induction k arbitrary: xs)
  case 0
  then show ?case by simp
next
  case (Suc k)
  then have ne: "xs \<noteq> []" by auto
  define i where "i = rnd k mod length xs"
  have i: "i < length xs" using ne by (simp add: i_def)
  have "length (take i xs @ drop (Suc i) xs) = length xs - 1" using i by simp
  with Suc.prems have "k \<le> length (take i xs @ drop (Suc i) xs)" by simp
  from Suc.IH [OF this] show ?case using ne by (simp add: i_def Let_def)
qed

lemma sample_distinct_subset: "set (sample_distinct rnd xs k) \<subseteq> set xs"
proof (induction k arbitrary: xs)
  case 0
  then show ?case by simp
next
  case (Suc k)
  show ?case
  proof (cases "xs = []")
    case True
    then show ?thesis by simp
  next
    case False
    define i where "i = rnd k mod length xs"
    have i: "i < length xs" using False by (simp add: i_def)
    have "set (take i xs @ drop (Suc i) xs) \<subseteq> set xs"
      using set_take_subset [of i xs] set_drop_subset [of "Suc i" xs] by auto
    with Suc.IH [of "take i xs @ drop (Suc i) xs"]
    have "set (sample_distinct rnd (take i xs @ drop (Suc i) xs) k) \<subseteq> set xs" by blast
    then show ?thesis using False i by (simp add: i_def Let_def)
  qed
qed

lemma count_samples_counts:
  assumes "count_samples bs exps ns = Inr ns'"
  shows "length ns' = length ns
       \<and> sum_list ns' = sum_list ns + length exps
       \<and> (\<forall>k < length ns. ns' ! k = ns ! k
              + length (filter (\<lambda>frame. policy_index bs (state (hd frame)) = Inr k) exps))"
  using assms
proof (induction exps arbitrary: ns)
  case Nil
  then show ?case by simp
next
  case (Cons frame exps)
  from Cons.prems obtain j where j: "policy_index bs (state (hd frame)) = Inr j"
    and jl: "j < length ns"
    and rec: "count_samples bs exps (ns[j := ns ! j + 1]) = Inr ns'"
    by (auto simp: bind_err_def split: if_splits sum.splits)
  from Cons.IH [OF rec]
  have len: "length ns' = length ns"
    and sum: "sum_list ns' = sum_list (ns[j := ns ! j + 1]) + length exps"
    and nth: "\<And>k. k < length ns \<Longrightarrow> ns' ! k = (ns[j := ns ! j + 1]) ! k
              + length (filter (\<lambda>frame. policy_index bs (state (hd frame)) = Inr k) exps)"
    by auto
  have "sum_list (ns[j := ns ! j + 1]) = sum_list ns + 1"
    using jl by (simp add: sum_list_update)
  with sum have sum': "sum_list ns' = sum_list ns + length (frame # exps)" by simp
  have "ns' ! k = ns ! k
          + length (filter (\<lambda>frame. policy_index bs (state (hd frame)) = Inr k) (frame # exps))"
    if "k < length ns" for k
    using nth [OF that] j jl that by (cases "k = j") auto
  with len sum' show ?case by blast
qed

lemma policy_index_defined:
  assumes "cum_reward ob = Inr c" and "bs \<noteq> []"
  shows "\<exists>k. policy_index bs ob = Inr k \<and> k \<le> length bs"
  using assms by (simp add: policy_index_def bind_err_def)

lemma count_samples_defined:
  assumes "bs \<noteq> []" and "length ns = length bs + 1"
    and "\<And>frame. frame \<in> set exps \<Longrightarrow> frame \<noteq> [] \<and> (\<exists>c. cum_reward (state (hd frame)) = Inr c)"
  shows "\<exists>ns'. count_samples bs exps ns = Inr ns'"
  using assms(2,3)
proof (induction exps arbitrary: ns)
  case Nil
  then show ?case by simp
next
  case (Cons frame exps)
  from Cons.prems(2) [of frame] obtain c where ne: "frame \<noteq> []"
    and c: "cum_reward (state (hd frame)) = Inr c" by auto
  from policy_index_defined [OF c assms(1)] obtain j
    where j: "policy_index bs (state (hd frame)) = Inr j" and jl: "j \<le> length bs" by blast
  have "\<exists>ns'. count_samples bs exps (ns[j := ns ! j + 1]) = Inr ns'"
    using Cons.prems by (intro Cons.IH) auto
  then show ?case using ne j jl Cons.prems(1) by (simp add: bind_err_def)
qed

lemma update_buffer_defined:
  assumes "rbs_reward_boundaries s \<noteq> []"
    and "length (replay_buffers s) = length (rbs_reward_boundaries s) + 1"
    and "\<And>n. \<exists>c. cum_reward (demo_ob (draws (rbs_expert_dataset s) n)) = Inr c"
  shows "\<exists>s'. update_buffer n s = Inr s' \<and> draws (rbs_expert_dataset s') = draws (rbs_expert_dataset s)"
  using assms
proof (induction n arbitrary: s)
  case 0
  then show ?case by simp
next
  case (Suc n)
  define d where "d = draws (rbs_expert_dataset s) (cursor (rbs_expert_dataset s))"
  define ds where "ds = (rbs_expert_dataset s)\<lparr>cursor := Suc (cursor (rbs_expert_dataset s))\<rparr>"
  have smp: "dataset_sample (rbs_expert_dataset s) = (d, ds)"
    by (simp add: dataset_sample_def d_def ds_def)
  from Suc.prems(3) obtain c where c: "cum_reward (demo_ob d) = Inr c"
    unfolding d_def by blast
  from policy_index_defined [OF c Suc.prems(1)] obtain k
    where k: "policy_index (rbs_reward_boundaries s) (demo_ob d) = Inr k"
      and kl: "k \<le> length (rbs_reward_boundaries s)" by blast
  define s1 where "s1 = s\<lparr>rbs_expert_dataset := ds,
                replay_buffers := (replay_buffers s)
                  [k := rbuf_append (replay_buffers s ! k)
                     \<lparr>state = demo_ob d, action = demo_act d, reward = rbs_reward_scale s,
                      next_state = demo_next_ob d, next_action = None,
                      is_state_terminal = demo_done d, weight = None\<rparr>]\<rparr>"
  have dr: "draws (rbs_expert_dataset s1) = draws (rbs_expert_dataset s)"
    by (simp add: s1_def ds_def)
  have "\<exists>s'. update_buffer n s1 = Inr s'
             \<and> draws (rbs_expert_dataset s') = draws (rbs_expert_dataset s1)"
  proof (rule Suc.IH)
    show "rbs_reward_boundaries s1 \<noteq> []" using Suc.prems(1) by (simp add: s1_def)
    show "length (replay_buffers s1) = length (rbs_reward_boundaries s1) + 1"
      using Suc.prems(2) by (simp add: s1_def)
    show "\<exists>c. cum_reward (demo_ob (draws (rbs_expert_dataset s1) n)) = Inr c" for n
      using Suc.prems(3) [of n] by (simp add: dr)
  qed
  moreover have "update_buffer (Suc n) s = update_buffer n s1"
    using smp k kl Suc.prems(2) by (simp add: bind_err_def s1_def)
  ultimately show ?case using dr by auto
qed

lemma draw_buckets_parts:
  assumes "length bufs = length ns"
    and "\<And>k. k < length ns \<Longrightarrow> ns ! k \<le> length (memory (bufs ! k))"
  shows "\<exists>parts. draw_buckets rnd pos (zip bufs ns) = Inr parts
           \<and> length parts = length ns
           \<and> (\<forall>k < length ns. length (parts ! k) = ns ! k
                  \<and> set (parts ! k) \<subseteq> set (memory (bufs ! k)))"
  using assms
proof (induction bufs ns arbitrary: pos rule: list_induct2)
  case Nil
  then show ?case by simp
next
  case (Cons rbuf bufs n ns)
  from Cons.prems [of 0] have n: "n \<le> length (memory rbuf)" by simp
  have "\<And>k. k < length ns \<Longrightarrow> ns ! k \<le> length (memory (bufs ! k))"
    using Cons.prems [of "Suc k" for k] by auto
  from Cons.IH [OF this, of "pos + n"] obtain others
    where o: "draw_buckets rnd (pos + n) (zip bufs ns) = Inr others"
      and ol: "length others = length ns"
      and on: "\<And>k. k < length ns \<Longrightarrow> length (others ! k) = ns ! k
                  \<and> set (others ! k) \<subseteq> set (memory (bufs ! k))"
    by blast
  define samples where "samples = sample_distinct (\<lambda>k. rnd (pos + k)) (memory rbuf) n"
  have s: "rbuf_sample (\<lambda>k. rnd (pos + k)) rbuf n = Inr samples"
    using n by (simp add: rbuf_sample_def samples_def)
  have sl: "length samples = n" and ss: "set samples \<subseteq> set (memory rbuf)"
    using n by (simp_all add: samples_def sample_distinct_length sample_distinct_subset)
  have d: "draw_buckets rnd pos (zip (rbuf # bufs) (n # ns)) = Inr (samples # others)"
    using s o by (simp add: bind_err_def)
  have "length ((samples # others) ! k) = (n # ns) ! k
        \<and> set ((samples # others) ! k) \<subseteq> set (memory ((rbuf # bufs) ! k))"
    if "k < length (n # ns)" for k
    using that sl ss on by (cases k) auto
  with d ol show ?case by auto
qed

lemma policy_index_example:
  "policy_index [1] [[[0]]] = Inr 0" "policy_index [1] [[[1]]] = Inr 1"
proof -
  have t: "\<bar>1 / 1 :: real\<bar> \<le> 1000" by simp
  have "\<not> exceeds 0 1 1"
    by (rule not_exceeds_below) simp_all
  moreover have "exceeds 1 1 1"
    by (rule exceeds_at_or_above) simp_all
  moreover have "cum_reward [[[0]]] = Inr 0" "cum_reward [[[1]]] = Inr 1"
    by (simp_all add: cum_reward_def rectangular_def)
  ultimately show "policy_index [1] [[[0]]] = Inr 0" "policy_index [1] [[[1]]] = Inr 1"
    by (simp_all add: policy_index_def bind_err_def)
qed

text \<open>Construction leaves every bucket full.\<close>

lemma RewardBasedSampler_example:
  "RewardBasedSampler example_dataset [1] 1 1 (\<lambda>k. k) = Some (Inr example_sampler)"
  unfolding RewardBasedSampler_def
  apply (subst fill_buffers.simps)
  apply (simp add: example_dataset_def dataset_sample_def policy_index_example bind_err_def
      rbuf_append_def)
  apply (subst fill_buffers.simps)
  apply (simp add: example_dataset_def dataset_sample_def policy_index_example bind_err_def
      rbuf_append_def)
  apply (subst fill_buffers.simps)
  apply (simp add: example_sampler_def example_dataset_def)
  done

text \<open>
  Claim C3, amended. On a sampler whose buckets are full, as construction leaves them,
  with observations that carry a cumulative return, and for every batch that asks no
  bucket for more than \<open>max_buffer_size\<close> transitions, \<^verbatim>\<open>sample\<close> returns exactly
  \<open>len(experiences)\<close> demonstration transitions: the concatenation, in bucket order, of
  one part per bucket, the part of bucket \<open>k\<close> drawn from bucket \<open>k\<close> and as long as the
  number of experiences whose state has policy index \<open>k\<close>. The buckets are full again
  afterwards.
\<close>

theorem sample_matches_bucket_counts:
  assumes full: "buckets_full m s"
    and bs: "rbs_reward_boundaries s \<noteq> []"
    and ds: "\<And>n. \<exists>c. cum_reward (demo_ob (draws (rbs_expert_dataset s) n)) = Inr c"
    and frames: "\<And>frame. frame \<in> set experiences \<Longrightarrow>
                   frame \<noteq> [] \<and> (\<exists>c. cum_reward (state (hd frame)) = Inr c)"
    and enough: "\<And>k. length (filter (\<lambda>frame. policy_index (rbs_reward_boundaries s)
                                          (state (hd frame)) = Inr k) experiences) \<le> m"
  shows "\<exists>parts s'.
           sample_buckets s experiences = Inr (parts, s')
           \<and> sample s experiences = Inr (concat parts, s')
           \<and> length (concat parts) = length experiences
           \<and> length parts = length (rbs_reward_boundaries s) + 1
           \<and> (\<forall>k \<le> length (rbs_reward_boundaries s).
                 length (parts ! k)
                 = length (filter (\<lambda>frame. policy_index (rbs_reward_boundaries s)
                                            (state (hd frame)) = Inr k) experiences)
                 \<and> set (parts ! k) \<subseteq> set (memory (replay_buffers s' ! k)))
           \<and> buckets_full m s'"
proof -
  let ?bs = "rbs_reward_boundaries s"
  let ?cnt = "\<lambda>k. length (filter (\<lambda>frame. policy_index ?bs (state (hd frame)) = Inr k)
                             experiences)"
  have lb: "length (replay_buffers s) = length ?bs + 1"
    using full by (simp add: buckets_full_def)
  from update_buffer_defined [OF bs lb ds, of "length experiences"]
  obtain s1 where u: "update_buffer (length experiences) s = Inr s1" by blast
  have bs1: "rbs_reward_boundaries s1 = ?bs" by (rule update_buffer_keeps(1) [OF u])
  have full1: "buckets_full m s1" by (rule update_buffer_full [OF u full])
  have lb1: "length (replay_buffers s1) = length ?bs + 1"
    using full1 bs1 by (simp add: buckets_full_def)
  define zs where "zs = replicate (length ?bs + 1) (0 :: nat)"
  have zl: "length zs = length ?bs + 1" and zsum: "sum_list zs = 0"
    and zn: "\<And>k. k < length ?bs + 1 \<Longrightarrow> zs ! k = 0"
    unfolding zs_def by (simp_all del: replicate_Suc)
  from count_samples_defined [OF bs zl frames, of experiences]
  obtain ns where c: "count_samples ?bs experiences zs = Inr ns"
    by auto
  from count_samples_counts [OF c]
  have nl: "length ns = length ?bs + 1"
    and nsum: "sum_list ns = length experiences"
    and nn: "\<And>k. k < length ?bs + 1 \<Longrightarrow> ns ! k = ?cnt k"
    using zl zsum zn by auto
  have fits: "ns ! k \<le> length (memory (replay_buffers s1 ! k))" if "k < length ns" for k
  proof -
    have "length (memory (replay_buffers s1 ! k)) = m"
      using full1 that nl lb1 by (auto simp: buckets_full_def list_all_length)
    with nn [of k] enough [of k] that nl show ?thesis by simp
  qed
  from draw_buckets_parts [of "replay_buffers s1" ns "rng s1" "rng_pos s1", OF _ fits]
  obtain parts where d: "draw_buckets (rng s1) (rng_pos s1) (zip (replay_buffers s1) ns) = Inr parts"
    and pl: "length parts = length ns"
    and pn: "\<And>k. k < length ns \<Longrightarrow> length (parts ! k) = ns ! k
                  \<and> set (parts ! k) \<subseteq> set (memory (replay_buffers s1 ! k))"
    using lb1 nl by auto
  define s' where "s' = s1\<lparr>rng_pos := rng_pos s1 + sum_list ns\<rparr>"
  have sb: "sample_buckets s experiences = Inr (parts, s')"
    using u c d by (simp add: sample_buckets_def bind_err_def bs1 s'_def zs_def)
  then have sm: "sample s experiences = Inr (concat parts, s')"
    by (simp add: sample_def bind_err_def)
  have "map length parts = ns"
    using pl pn by (auto simp: list_eq_iff_nth_eq)
  then have len: "length (concat parts) = length experiences"
    using nsum by (simp add: length_concat)
  have full': "buckets_full m s'"
    using full1 by (simp add: s'_def buckets_full_def)
  have per: "length (parts ! k) = ?cnt k \<and> set (parts ! k) \<subseteq> set (memory (replay_buffers s' ! k))"
    if "k \<le> length ?bs" for k
    using pn [of k] nn [of k] that nl by (simp add: s'_def)
  from sb sm len pl nl per full' show ?thesis by auto
qed

theorem sample_matches_bucket_counts_witness:
  "\<exists>ret s'. sample example_sampler [example_frame 0, example_frame 1] = Inr (ret, s')
           \<and> length ret = 2"
proof -
  have full: "buckets_full 1 example_sampler"
    by (simp add: buckets_full_def example_sampler_def)
  have bs: "rbs_reward_boundaries example_sampler \<noteq> []"
    by (simp add: example_sampler_def)
  have ds: "\<exists>c. cum_reward (demo_ob (draws (rbs_expert_dataset example_sampler) n)) = Inr c" for n
    by (simp add: example_sampler_def example_dataset_def cum_reward_def rectangular_def)
  have frames: "frame \<noteq> [] \<and> (\<exists>c. cum_reward (state (hd frame)) = Inr c)"
    if "frame \<in> set [example_frame 0, example_frame 1]" for frame
    using that by (auto simp: example_frame_def cum_reward_def rectangular_def)
  have enough: "length (filter (\<lambda>frame. policy_index (rbs_reward_boundaries example_sampler)
                                  (state (hd frame)) = Inr k)
                          [example_frame 0, example_frame 1]) \<le> 1" for k
    by (simp add: example_sampler_def example_frame_def policy_index_example)
  from sample_matches_bucket_counts [OF full bs ds frames enough]
  show ?thesis by fastforce
qed

text \<open>
  A batch of two experiences of bucket 0 on a sampler built with \<open>max_buffer_size = 1\<close>:
  the bucket holds one transition, and drawing two raises.
\<close>

theorem sample_bucket_short_counterexample:
  "RewardBasedSampler example_dataset [1] 1 1 (\<lambda>k. k) = Some (Inr example_sampler)
   \<and> sample example_sampler [example_frame 0, example_frame 0] = Inl AssertionError"
proof -
  have "update_buffer (length [example_frame 0, example_frame 0]) example_sampler
        = Inr (example_sampler
            \<lparr>rbs_expert_dataset := example_dataset\<lparr>cursor := 4\<rparr>,
             replay_buffers :=
               [\<lparr>capacity = Some 1,
                 memory = [[\<lparr>state = [[[0]]], action = 2, reward = 1, next_state = [[[0]]],
                             next_action = None, is_state_terminal = False, weight = None\<rparr>]]\<rparr>,
                \<lparr>capacity = Some 1,
                 memory = [[\<lparr>state = [[[1]]], action = 3, reward = 1, next_state = [[[0]]],
                             next_action = None, is_state_terminal = False, weight = None\<rparr>]]\<rparr>]\<rparr>)"
    by (simp add: example_sampler_def example_dataset_def dataset_sample_def
        policy_index_example bind_err_def rbuf_append_def)
  then have "sample example_sampler [example_frame 0, example_frame 0] = Inl AssertionError"
    by (simp add: sample_def sample_buckets_def bind_err_def example_sampler_def
        example_frame_def policy_index_example rbuf_sample_def)
  with RewardBasedSampler_example show ?thesis by simp
qed

section \<open>Construction-time checks\<close>

lemma SQIL_accumulator:
  assumes "\<not> (batch_accumulator a = ''mean'' \<or> batch_accumulator a = ''sum'')"
  shows "SQIL a = Some (Inl AssertionError)"
  using assms by (simp add: SQIL_def)

lemma SQIL_interval:
  assumes "\<not> update_interval a dvd target_update_interval a"
  shows "SQIL a = Some (Inl AssertionError) \<or> SQIL a = Some (Inl ZeroDivisionError)"
proof -
  have "target_update_interval a mod update_interval a \<noteq> 0"
    using assms by (simp add: dvd_eq_mod_eq_0)
  then show ?thesis by (simp add: SQIL_def)
qed

lemma sync_target_network_keeps:
  assumes "sync_target_network self = Inr self'"
  shows "replay_buffer self' = replay_buffer self" and "buffer self' = buffer self"
    and "replay_start_size self' = replay_start_size self"
    and "expert_dataset self' = expert_dataset self"
    and "reward_based_sampler self' = reward_based_sampler self"
    and "t self' = t self" and "cumulative_steps self' = cumulative_steps self"
    and "optim_t self' = optim_t self"
  using assms
  by (auto simp: sync_target_network_def bind_err_def split: option.splits sum.splits)

lemma SQIL_Inr_cases:
  assumes "SQIL a = Some (Inr self)"
  obtains sampler self0 where "build_sampler a = Some (Inr sampler)"
    and "self0 = (case sampler of
                    None \<Rightarrow> args.extend a
                      (agent.fields (q_function a) sampler 0 0 0 None None None [] [] True)
                  | Some s \<Rightarrow> (args.extend a
                      (agent.fields (q_function a) sampler 0 0 0 None None None [] [] True))
                        \<lparr>expert_dataset := Some (rbs_expert_dataset s)\<rparr>)"
    and "sync_target_network self0 = Inr self"
    and "\<not> (case rb_capacity (buffer self) (replay_buffer self) of
              None \<Rightarrow> False | Some c \<Rightarrow> c < replay_start_size self)"
proof -
  from assms obtain sampler where b: "build_sampler a = Some (Inr sampler)"
    by (auto simp: SQIL_def split: if_splits option.splits sum.splits)
  show ?thesis
    using assms b
    by (auto simp: SQIL_def Let_def split: if_splits option.splits sum.splits intro!: that)
qed

lemma SQIL_capacity:
  assumes "rb_capacity (buffer a) (replay_buffer a) = Some c" and "c < replay_start_size a"
  shows "SQIL a \<noteq> Some (Inr self)"
proof
  assume "SQIL a = Some (Inr self)"
  then obtain sampler self0 where "build_sampler a = Some (Inr sampler)"
    and s0: "self0 = (case sampler of
                    None \<Rightarrow> args.extend a
                      (agent.fields (q_function a) sampler 0 0 0 None None None [] [] True)
                  | Some s \<Rightarrow> (args.extend a
                      (agent.fields (q_function a) sampler 0 0 0 None None None [] [] True))
                        \<lparr>expert_dataset := Some (rbs_expert_dataset s)\<rparr>)"
    and sy: "sync_target_network self0 = Inr self"
    and ok: "\<not> (case rb_capacity (buffer self) (replay_buffer self) of
              None \<Rightarrow> False | Some c \<Rightarrow> c < replay_start_size self)"
    by (rule SQIL_Inr_cases)
  have "replay_buffer self0 = replay_buffer a" "buffer self0 = buffer a"
    "replay_start_size self0 = replay_start_size a"
    by (simp_all add: s0 args.extend_def agent.fields_def split: option.splits)
  with sync_target_network_keeps(1-3) [OF sy] ok assms show False by simp
qed

lemma build_sampler_None:
  assumes "reward_boundaries a = None \<or> expert_dataset a = None"
  shows "build_sampler a = Some (Inr None)"
  using assms by (auto simp: build_sampler_def split: option.splits)

lemma SQIL_returns:
  assumes "build_sampler a \<noteq> None"
  shows "SQIL a \<noteq> None"
  using assms
  by (auto simp: SQIL_def Let_def sync_target_network_def args.extend_def agent.fields_def
      split: if_splits option.splits sum.splits)

lemma SQIL_no_dataset:
  assumes "SQIL a = Some (Inr self)" and "expert_dataset a = None"
  shows "expert_dataset self = None \<and> reward_based_sampler self = None"
proof -
  from assms(1) obtain sampler self0 where b: "build_sampler a = Some (Inr sampler)"
    and s0: "self0 = (case sampler of
                    None \<Rightarrow> args.extend a
                      (agent.fields (q_function a) sampler 0 0 0 None None None [] [] True)
                  | Some s \<Rightarrow> (args.extend a
                      (agent.fields (q_function a) sampler 0 0 0 None None None [] [] True))
                        \<lparr>expert_dataset := Some (rbs_expert_dataset s)\<rparr>)"
    and sy: "sync_target_network self0 = Inr self"
    by (rule SQIL_Inr_cases)
  from b build_sampler_None [of a] assms(2) have "sampler = None" by simp
  then have "expert_dataset self0 = None" "reward_based_sampler self0 = None"
    using assms(2) by (simp_all add: s0 args.extend_def agent.fields_def)
  with sync_target_network_keeps(4,5) [OF sy] show ?thesis by simp
qed

lemma demonstrations_no_dataset:
  assumes "expert_dataset self = None" and "reward_based_sampler self = None"
  shows "demonstrations self experiences = Inl ValueError"
  using assms
  by (simp add: demonstrations_def load_experiences_from_demonstrations_def bind_err_def)

lemma update_no_dataset:
  assumes "expert_dataset self = None" and "reward_based_sampler self = None"
  shows "\<exists>e. update self experiences = Inl e"
  using demonstrations_no_dataset [OF assms]
  by (auto simp: update_def bind_err_def Let_def split: sum.splits)

text \<open>
  Claim C5, amended. Construction raises when the batch accumulator is neither
  \<open>mean\<close> nor \<open>sum\<close> and when \<open>target_update_interval\<close> is not a multiple of
  \<open>update_interval\<close>. When the replay buffer's capacity is below \<open>replay_start_size\<close>
  construction never yields an agent, and raises as soon as the reward-based sampler,
  which is built first, has been built. A missing expert dataset is not checked at
  construction: the agent is built, and loading the demonstrations of an update raises
  \<open>ValueError\<close>, so that no update succeeds.
\<close>

theorem SQIL_construction_checks:
  fixes a :: "'rb args"
  shows "(\<not> (batch_accumulator a = ''mean'' \<or> batch_accumulator a = ''sum'')
            \<longrightarrow> SQIL a = Some (Inl AssertionError))
       \<and> (\<not> update_interval a dvd target_update_interval a
            \<longrightarrow> SQIL a = Some (Inl AssertionError) \<or> SQIL a = Some (Inl ZeroDivisionError))
       \<and> (\<forall>c. rb_capacity (buffer a) (replay_buffer a) = Some c \<and> c < replay_start_size a
            \<longrightarrow> (\<forall>self. SQIL a \<noteq> Some (Inr self))
                \<and> (build_sampler a \<noteq> None \<longrightarrow> (\<exists>e. SQIL a = Some (Inl e))))
       \<and> (\<forall>self. SQIL a = Some (Inr self) \<and> expert_dataset a = None
            \<longrightarrow> (\<forall>experiences. demonstrations self experiences = Inl ValueError
                                \<and> (\<exists>e. update self experiences = Inl e)))"
proof (intro conjI allI impI)
  assume "\<not> (batch_accumulator a = ''mean'' \<or> batch_accumulator a = ''sum'')"
  then show "SQIL a = Some (Inl AssertionError)" by (rule SQIL_accumulator)
next
  assume "\<not> update_interval a dvd target_update_interval a"
  then show "SQIL a = Some (Inl AssertionError) \<or> SQIL a = Some (Inl ZeroDivisionError)"
    by (rule SQIL_interval)
next
  fix c self
  assume "rb_capacity (buffer a) (replay_buffer a) = Some c \<and> c < replay_start_size a"
  then show "SQIL a \<noteq> Some (Inr self)" using SQIL_capacity [of a c self] by simp
next
  fix c
  assume h: "rb_capacity (buffer a) (replay_buffer a) = Some c \<and> c < replay_start_size a"
    and b: "build_sampler a \<noteq> None"
  from SQIL_returns [OF b] obtain r where r: "SQIL a = Some r" by auto
  show "\<exists>e. SQIL a = Some (Inl e)"
  proof (cases r)
    case (Inl e)
    with r show ?thesis by simp
  next
    case (Inr self)
    with r h SQIL_capacity [of a c self] show ?thesis by simp
  qed
next
  fix self experiences
  assume h: "SQIL a = Some (Inr self) \<and> expert_dataset a = None"
  then have n: "expert_dataset self = None \<and> reward_based_sampler self = None"
    using SQIL_no_dataset [of a self] by simp
  then show "demonstrations self experiences = Inl ValueError"
    by (simp add: demonstrations_no_dataset)
  from n show "\<exists>e. update self experiences = Inl e"
    by (simp add: update_no_dataset)
qed

lemma example_args_simps:
  "batch_accumulator example_args = ''mean''"
  "update_interval example_args = 1"
  "target_update_interval example_args = 2"
  "replay_start_size example_args = 2"
  "expert_dataset example_args = None"
  "reward_boundaries example_args = None"
  "rb_capacity (buffer example_args) (replay_buffer example_args) = Some 10"
  by (simp_all add: example_args_def plain_buffer_def)

theorem SQIL_construction_checks_witness:
  "SQIL (example_args\<lparr>batch_accumulator := ''max''\<rparr>) = Some (Inl AssertionError)
   \<and> (SQIL (example_args\<lparr>update_interval := 2, target_update_interval := 3\<rparr>)
        = Some (Inl AssertionError)
      \<or> SQIL (example_args\<lparr>update_interval := 2, target_update_interval := 3\<rparr>)
        = Some (Inl ZeroDivisionError))
   \<and> (\<exists>e. SQIL (example_args\<lparr>replay_start_size := 20\<rparr>) = Some (Inl e))
   \<and> SQIL example_args = Some (Inr example_agent)
   \<and> demonstrations example_agent [] = Inl ValueError"
proof -
  have 1: "SQIL (example_args\<lparr>batch_accumulator := ''max''\<rparr>) = Some (Inl AssertionError)"
    using SQIL_construction_checks [of "example_args\<lparr>batch_accumulator := ''max''\<rparr>"]
    by simp
  have 2: "SQIL (example_args\<lparr>update_interval := 2, target_update_interval := 3\<rparr>)
        = Some (Inl AssertionError)
      \<or> SQIL (example_args\<lparr>update_interval := 2, target_update_interval := 3\<rparr>)
        = Some (Inl ZeroDivisionError)"
    using SQIL_construction_checks
      [of "example_args\<lparr>update_interval := 2, target_update_interval := 3\<rparr>"]
    by simp
  have "rb_capacity (buffer (example_args\<lparr>replay_start_size := 20\<rparr>))
          (replay_buffer (example_args\<lparr>replay_start_size := 20\<rparr>)) = Some 10
        \<and> 10 < replay_start_size (example_args\<lparr>replay_start_size := 20\<rparr>)"
    by (simp add: example_args_simps)
  moreover have "build_sampler (example_args\<lparr>replay_start_size := 20\<rparr>) \<noteq> None"
    by (simp add: build_sampler_def example_args_simps)
  ultimately have 3: "\<exists>e. SQIL (example_args\<lparr>replay_start_size := 20\<rparr>) = Some (Inl e)"
    using SQIL_construction_checks [of "example_args\<lparr>replay_start_size := 20\<rparr>"]
    by blast
  have 4: "demonstrations example_agent [] = Inl ValueError"
    using SQIL_construction_checks [of example_args] SQIL_example
    by (simp add: example_args_simps)
  from 1 2 3 4 SQIL_example show ?thesis by simp
qed

text \<open>Construction without an expert dataset returns an agent.\<close>

theorem SQIL_without_dataset_counterexample:
  "expert_dataset example_args = None \<and> SQIL example_args = Some (Inr example_agent)"
  using SQIL_example by (simp add: example_args_simps)

section \<open>The update scheduler and the step counters\<close>

lemma update_if_necessary_skipped:
  assumes "int (rb_len (buffer self) (replay_buffer self)) < replay_start_size self"
  shows "update_if_necessary self iteration = (self, None)"
  using assms by (simp add: update_if_necessary_def can_start_replay_def)

lemma count_step_counters:
  "t (count_step self) = t self + 1"
  "cumulative_steps (count_step self) = cumulative_steps self + 1"
  "optim_t (count_step self) = optim_t self"
  by (simp_all add: count_step_def Let_def)

lemma sync_when_due_counters:
  assumes "sync_when_due self = (self', e)"
  shows "t self' = t self" and "cumulative_steps self' = cumulative_steps self"
    and "optim_t self' = optim_t self"
  using assms sync_target_network_keeps(6-8) [of self]
  by (auto simp: sync_when_due_def split: if_splits sum.splits)

lemma store_transition_counters:
  assumes "store_transition self i batch_obs batch_reward batch_done batch_reset = (self', e)"
  shows "t self' = t self" and "cumulative_steps self' = cumulative_steps self"
    and "optim_t self' = optim_t self"
  using assms
  by (auto simp: store_transition_def Let_def split: option.splits if_splits)

lemma record_slot_counters:
  assumes "record_slot self i batch_obs batch_reward batch_done batch_reset = (self', e)"
  shows "t self' = t self + 1" and "cumulative_steps self' = cumulative_steps self + 1"
    and "optim_t self' = optim_t self"
proof -
  obtain s1 e1 where s1: "sync_when_due (count_step self) = (s1, e1)"
    by (cases "sync_when_due (count_step self)")
  note c1 = sync_when_due_counters [OF s1]
  show "t self' = t self + 1" and "cumulative_steps self' = cumulative_steps self + 1"
    and "optim_t self' = optim_t self"
  proof (atomize (full), cases e1)
    case None
    with assms s1
    have "store_transition s1 i batch_obs batch_reward batch_done batch_reset = (self', e)"
      by (simp add: record_slot_def then_step_def)
    from store_transition_counters [OF this] c1
    show "t self' = t self + 1 \<and> cumulative_steps self' = cumulative_steps self + 1
          \<and> optim_t self' = optim_t self"
      by (simp add: count_step_counters)
  next
    case (Some err)
    with assms s1 have "self' = s1" by (simp add: record_slot_def then_step_def)
    with c1 show "t self' = t self + 1 \<and> cumulative_steps self' = cumulative_steps self + 1
          \<and> optim_t self' = optim_t self"
      by (simp add: count_step_counters)
  qed
qed

lemma below_start_size_observe:
  assumes "below_start_size n i self batch_obs batch_reward batch_done batch_reset"
  shows "optim_t (fst (observe_slots n i self batch_obs batch_reward batch_done batch_reset))
         = optim_t self"
  using assms
proof (induction n arbitrary: i self)
  case 0
  then show ?case by simp
next
  case (Suc n)
  obtain s1 e1 where r: "record_slot self i batch_obs batch_reward batch_done batch_reset = (s1, e1)"
    by (cases "record_slot self i batch_obs batch_reward batch_done batch_reset")
  note o1 = record_slot_counters(3) [OF r]
  show ?case
  proof (cases e1)
    case (Some err)
    with r o1 show ?thesis by (simp add: observe_slot_def then_step_def)
  next
    case None
    with Suc.prems r
    have len: "int (rb_len (buffer s1) (replay_buffer s1)) < replay_start_size s1"
      and rest: "below_start_size n (Suc i) s1 batch_obs batch_reward batch_done batch_reset"
      by simp_all
    have "observe_slot self i batch_obs batch_reward batch_done batch_reset = (s1, None)"
      using r None update_if_necessary_skipped [OF len]
      by (simp add: observe_slot_def then_step_def)
    then show ?thesis using Suc.IH [OF rest] o1 by (simp add: then_step_def)
  qed
qed

lemma batch_act_counters:
  assumes "batch_act self batch_obs = Inr (actions, self')"
  shows "t self' = t self" and "cumulative_steps self' = cumulative_steps self"
    and "optim_t self' = optim_t self"
  using assms by (auto simp: batch_act_def Let_def split: if_splits)

lemma demonstrations_counters:
  assumes "demonstrations self experiences = Inr (demo_experiences, self')"
  shows "t self' = t self" and "cumulative_steps self' = cumulative_steps self"
    and "optim_t self' = optim_t self"
  using assms
  by (auto simp: demonstrations_def bind_err_def split: option.splits sum.splits prod.splits)

lemma optimize_counters:
  "t (optimize self exp_batch demo_batch loss ys) = t self"
  "cumulative_steps (optimize self exp_batch demo_batch loss ys) = cumulative_steps self"
  "optim_t (optimize self exp_batch demo_batch loss ys) = optim_t self + 1"
  by (simp_all add: optimize_def)

lemma demonstrations_counters_all:
  assumes "demonstrations self experiences = Inr (demo_experiences, self')"
  shows "t self' = t self \<and> cumulative_steps self' = cumulative_steps self
         \<and> optim_t self' = optim_t self"
  using demonstrations_counters [OF assms] by simp

lemma update_counters:
  assumes "update self experiences = Inr self'"
  shows "t self' = t self \<and> cumulative_steps self' = cumulative_steps self
         \<and> optim_t self' = optim_t self + 1"
  using assms
  by (auto simp: update_def bind_err_def Let_def optimize_counters
      split: if_splits sum.splits prod.splits dest: demonstrations_counters_all)

lemma update_from_episodes_counters:
  assumes "update_from_episodes self episodes errors_out = Inr self'"
  shows "t self' = t self \<and> cumulative_steps self' = cumulative_steps self
         \<and> optim_t self' = optim_t self + 1"
  using assms
  by (auto simp: update_from_episodes_def bind_err_def Let_def optimize_counters
      split: if_splits sum.splits prod.splits)

lemma update_once_counters:
  assumes "update_once self = Inr self'"
  shows "t self' = t self \<and> cumulative_steps self' = cumulative_steps self"
proof (cases "recurrent self")
  case True
  with assms obtain episodes rbuf
    where "update_from_episodes (self\<lparr>replay_buffer := rbuf\<rparr>) episodes False = Inr self'"
    by (auto simp: update_once_def bind_err_def split: sum.splits prod.splits)
  from update_from_episodes_counters [OF this] show ?thesis by simp
next
  case False
  with assms obtain transitions rbuf
    where "update (self\<lparr>replay_buffer := rbuf\<rparr>) transitions = Inr self'"
    by (auto simp: update_once_def bind_err_def split: sum.splits prod.splits)
  from update_counters [OF this] show ?thesis by simp
qed

lemma update_n_times_counters:
  "t (fst (update_n_times n self)) = t self
   \<and> cumulative_steps (fst (update_n_times n self)) = cumulative_steps self"
proof (induction n arbitrary: self)
  case 0
  then show ?case by simp
next
  case (Suc n)
  show ?case
  proof (cases "update_once self")
    case (Inl e)
    then have "update_n_times (Suc n) self = (self, Some e)" by simp
    then show ?thesis by (simp only: fst_conv simp_thms)
  next
    case (Inr self')
    then have "update_n_times (Suc n) self = update_n_times n self'" by simp
    with Suc.IH [of self'] update_once_counters [OF Inr] show ?thesis
      by (simp only: simp_thms)
  qed
qed

lemma update_if_necessary_counters:
  "t (fst (update_if_necessary self iteration)) = t self
   \<and> cumulative_steps (fst (update_if_necessary self iteration)) = cumulative_steps self"
proof (cases "can_start_replay self")
  case (Inl e)
  then show ?thesis by (simp add: update_if_necessary_def)
next
  case (Inr b)
  then show ?thesis
    using update_n_times_counters [of "nat (n_times_update self)" self]
    by (cases b) (simp_all add: update_if_necessary_def)
qed

lemma SQIL_counters:
  assumes "SQIL a = Some (Inr self)"
  shows "t self = 0" and "cumulative_steps self = 0" and "optim_t self = 0"
proof -
  from assms obtain sampler self0
    where s0: "self0 = (case sampler of
                    None \<Rightarrow> args.extend a
                      (agent.fields (q_function a) sampler 0 0 0 None None None [] [] True)
                  | Some s \<Rightarrow> (args.extend a
                      (agent.fields (q_function a) sampler 0 0 0 None None None [] [] True))
                        \<lparr>expert_dataset := Some (rbs_expert_dataset s)\<rparr>)"
    and sy: "sync_target_network self0 = Inr self"
    by (rule SQIL_Inr_cases)
  have "t self0 = 0" "cumulative_steps self0 = 0" "optim_t self0 = 0"
    by (simp_all add: s0 args.extend_def agent.fields_def split: option.splits)
  with sync_target_network_keeps(6-8) [OF sy]
  show "t self = 0" and "cumulative_steps self = 0" and "optim_t self = 0" by simp_all
qed

lemma observe_slot_counters:
  "t (fst (observe_slot self i batch_obs batch_reward batch_done batch_reset)) = t self + 1
   \<and> cumulative_steps (fst (observe_slot self i batch_obs batch_reward batch_done batch_reset))
     = cumulative_steps self + 1"
proof -
  obtain s1 e1 where r: "record_slot self i batch_obs batch_reward batch_done batch_reset = (s1, e1)"
    by (cases "record_slot self i batch_obs batch_reward batch_done batch_reset")
  note c = record_slot_counters(1,2) [OF r]
  show ?thesis
  proof (cases e1)
    case None
    then have "observe_slot self i batch_obs batch_reward batch_done batch_reset
               = update_if_necessary s1 (t s1)"
      using r by (simp add: observe_slot_def then_step_def)
    with update_if_necessary_counters [of s1 "t s1"] c show ?thesis
      by (simp only:)
  next
    case (Some err)
    then have "observe_slot self i batch_obs batch_reward batch_done batch_reset = (s1, Some err)"
      using r by (simp add: observe_slot_def then_step_def)
    with c show ?thesis by (simp only: fst_conv simp_thms)
  qed
qed

lemma observe_slots_counters:
  "cumulative_steps (fst (observe_slots n i self batch_obs batch_reward batch_done batch_reset))
     - cumulative_steps self
   = t (fst (observe_slots n i self batch_obs batch_reward batch_done batch_reset)) - t self
   \<and> 0 \<le> t (fst (observe_slots n i self batch_obs batch_reward batch_done batch_reset)) - t self
   \<and> t (fst (observe_slots n i self batch_obs batch_reward batch_done batch_reset)) - t self
       \<le> int n
   \<and> (snd (observe_slots n i self batch_obs batch_reward batch_done batch_reset) = None
        \<longrightarrow> t (fst (observe_slots n i self batch_obs batch_reward batch_done batch_reset))
              - t self = int n)"
proof (induction n arbitrary: i self)
  case 0
  show ?case by simp
next
  case (Suc n)
  obtain s1 e1 where o: "observe_slot self i batch_obs batch_reward batch_done batch_reset = (s1, e1)"
    by (cases "observe_slot self i batch_obs batch_reward batch_done batch_reset")
  from observe_slot_counters [of self i batch_obs batch_reward batch_done batch_reset]
  have c: "t s1 = t self + 1" "cumulative_steps s1 = cumulative_steps self + 1"
    unfolding o fst_conv by simp_all
  show ?case
  proof (cases e1)
    case (Some err)
    have eq: "observe_slots (Suc n) i self batch_obs batch_reward batch_done batch_reset
               = (s1, Some err)"
      unfolding observe_slots.simps o Some then_step_def by simp
    show ?thesis unfolding eq fst_conv snd_conv using c by simp
  next
    case None
    have eq: "observe_slots (Suc n) i self batch_obs batch_reward batch_done batch_reset
               = observe_slots n (Suc i) s1 batch_obs batch_reward batch_done batch_reset"
      unfolding observe_slots.simps o None then_step_def by simp
    show ?thesis unfolding eq using Suc.IH [of "Suc i" s1] c by linarith
  qed
qed

lemma keep_on_error_cases:
  obtains (raised) e where "r = Inl e" "keep_on_error s r = (s, Some e)"
        | (returned) s' where "r = Inr s'" "keep_on_error s r = (s', None)"
  by (cases r) (simp_all add: keep_on_error_def)

lemma perform_counters:
  fixes self :: "'rb agent"
  shows "cumulative_steps (fst (perform self op)) - cumulative_steps self
         = t (fst (perform self op)) - t self
       \<and> (case op of
            BatchObserve batch_obs batch_reward batch_done batch_reset \<Rightarrow>
              if training self
              then 0 \<le> t (fst (perform self op)) - t self
                   \<and> t (fst (perform self op)) - t self \<le> int (length batch_obs)
                   \<and> (snd (perform self op) = None
                        \<longrightarrow> t (fst (perform self op)) - t self = int (length batch_obs))
              else t (fst (perform self op)) = t self
          | _ \<Rightarrow> t (fst (perform self op)) = t self)"
proof (cases op)
  case (BatchAct batch_obs)
  show ?thesis
  proof (cases "batch_act self batch_obs")
    case (Inl e)
    then show ?thesis by (simp add: BatchAct keep_on_error_def bind_err_def)
  next
    case (Inr r)
    obtain actions self' where r: "r = (actions, self')" by (cases r)
    from batch_act_counters(1,2) [OF Inr [unfolded r]] show ?thesis
      by (simp add: BatchAct keep_on_error_def bind_err_def Inr r)
  qed
next
  case (BatchObserve batch_obs batch_reward batch_done batch_reset)
  show ?thesis
  proof (cases "training self")
    case True
    then have p: "perform self op
          = observe_slots (length batch_obs) 0 self batch_obs batch_reward batch_done batch_reset"
      by (simp add: BatchObserve batch_observe_def batch_observe_train_def)
    from observe_slots_counters
      [of "length batch_obs" 0 self batch_obs batch_reward batch_done batch_reset]
    show ?thesis unfolding p by (simp add: BatchObserve True)
  next
    case False
    then show ?thesis
      by (simp add: BatchObserve batch_observe_def batch_observe_eval_def)
  qed
next
  case SyncTargetNetwork
  show ?thesis
  proof (cases "sync_target_network self")
    case (Inl e)
    then show ?thesis by (simp add: SyncTargetNetwork keep_on_error_def)
  next
    case (Inr self')
    from sync_target_network_keeps(6,7) [OF Inr] show ?thesis
      by (simp add: SyncTargetNetwork keep_on_error_def Inr)
  qed
next
  case (Update experiences)
  show ?thesis
  proof (cases "update self experiences")
    case (Inl e)
    then show ?thesis by (simp add: Update keep_on_error_def)
  next
    case (Inr self')
    from update_counters [OF Inr] show ?thesis
      by (simp add: Update keep_on_error_def Inr)
  qed
next
  case (UpdateFromEpisodes episodes errors_out)
  show ?thesis
  proof (cases "update_from_episodes self episodes errors_out")
    case (Inl e)
    then show ?thesis by (simp add: UpdateFromEpisodes keep_on_error_def)
  next
    case (Inr self')
    from update_from_episodes_counters [OF Inr] show ?thesis
      by (simp add: UpdateFromEpisodes keep_on_error_def Inr)
  qed
next
  case StopEpisode
  then show ?thesis by (simp add: stop_episode_def)
next
  case GetStatistics
  then show ?thesis by simp
next
  case (SetTraining b)
  then show ?thesis by simp
qed

lemma run_counters:
  "cumulative_steps (run self ops) - t (run self ops) = cumulative_steps self - t self"
proof (induction ops arbitrary: self)
  case Nil
  show ?case by simp
next
  case (Cons op ops)
  from perform_counters [of self op]
  have "cumulative_steps (fst (perform self op)) - t (fst (perform self op))
        = cumulative_steps self - t self"
    by linarith
  with Cons.IH [of "fst (perform self op)"] show ?case by simp
qed

lemma perform_quiet:
  assumes "quiet self (op # ops)"
  shows "optim_t (fst (perform self op)) = optim_t self"
proof (cases op)
  case (BatchAct batch_obs)
  show ?thesis
  proof (cases "batch_act self batch_obs")
    case (Inl e)
    then show ?thesis by (simp add: BatchAct keep_on_error_def bind_err_def)
  next
    case (Inr r)
    obtain actions self' where r: "r = (actions, self')" by (cases r)
    from batch_act_counters(3) [OF Inr [unfolded r]] show ?thesis
      by (simp add: BatchAct keep_on_error_def bind_err_def Inr r)
  qed
next
  case (BatchObserve batch_obs batch_reward batch_done batch_reset)
  show ?thesis
  proof (cases "training self")
    case True
    then have p: "perform self op
          = observe_slots (length batch_obs) 0 self batch_obs batch_reward batch_done batch_reset"
      by (simp add: BatchObserve batch_observe_def batch_observe_train_def)
    from assms True
    have "below_start_size (length batch_obs) 0 self batch_obs batch_reward batch_done batch_reset"
      by (simp add: BatchObserve)
    from below_start_size_observe [OF this] show ?thesis unfolding p .
  next
    case False
    then show ?thesis
      by (simp add: BatchObserve batch_observe_def batch_observe_eval_def)
  qed
next
  case SyncTargetNetwork
  show ?thesis
  proof (cases "sync_target_network self")
    case (Inl e)
    then show ?thesis by (simp add: SyncTargetNetwork keep_on_error_def)
  next
    case (Inr self')
    from sync_target_network_keeps(8) [OF Inr] show ?thesis
      by (simp add: SyncTargetNetwork keep_on_error_def Inr)
  qed
next
  case (Update experiences)
  with assms show ?thesis by simp
next
  case (UpdateFromEpisodes episodes errors_out)
  with assms show ?thesis by simp
next
  case StopEpisode
  then show ?thesis by (simp add: stop_episode_def)
next
  case GetStatistics
  then show ?thesis by simp
next
  case (SetTraining b)
  then show ?thesis by simp
qed

lemma run_quiet:
  assumes "quiet self ops"
  shows "optim_t (run self ops) = optim_t self"
  using assms
proof (induction ops arbitrary: self)
  case Nil
  show ?case by simp
next
  case (Cons op ops)
  from Cons.prems have "quiet (fst (perform self op)) ops" by simp
  from Cons.IH [OF this] perform_quiet [OF Cons.prems] show ?case by simp
qed

text \<open>
  Claim C4. The scheduler skips the update whenever the replay buffer is shorter than
  \<open>replay_start_size\<close>. Hence, from a freshly constructed agent, after any sequence of
  act and observe calls (and syncs, mode switches, statistics) during which the buffer
  length is below \<open>replay_start_size\<close> at every call of the scheduler, the update
  counter \<open>optim_t\<close>, reported as \<open>n_updates\<close>, is still 0.
\<close>

theorem no_update_below_start_size:
  fixes a :: "'rb args"
  shows "(\<forall>(self :: 'rb agent) iteration.
            int (rb_len (buffer self) (replay_buffer self)) < replay_start_size self
            \<longrightarrow> update_if_necessary self iteration = (self, None))
       \<and> (\<forall>self ops. SQIL a = Some (Inr self) \<and> quiet self ops
            \<longrightarrow> optim_t (run self ops) = 0
                \<and> (''n_updates'', 0) \<in> set (get_statistics (run self ops)))"
proof (intro conjI allI impI)
  fix self :: "'rb agent" and iteration
  assume "int (rb_len (buffer self) (replay_buffer self)) < replay_start_size self"
  then show "update_if_necessary self iteration = (self, None)"
    by (rule update_if_necessary_skipped)
next
  fix self :: "'rb agent" and ops
  assume h: "SQIL a = Some (Inr self) \<and> quiet self ops"
  then have "optim_t self = 0" using SQIL_counters(3) [of a self] by simp
  with run_quiet [of self ops] h show o: "optim_t (run self ops) = 0" by simp
  then show "(''n_updates'', 0) \<in> set (get_statistics (run self ops))"
    by (simp add: get_statistics_def)
qed

text \<open>
  Claim C10. The step counter \<open>t\<close> and the cumulative step counter are both 0 at
  construction and equal after every run of operations, and \<^verbatim>\<open>cumulative_steps\<close> reports
  that value. Every operation changes both by the same amount: an observation in
  training mode by one per slot processed (all the slots when it does not raise), every
  other operation by nothing.
\<close>

theorem counters_in_step:
  fixes a :: "'rb args"
  shows "(\<forall>self. SQIL a = Some (Inr self)
            \<longrightarrow> t self = 0 \<and> cumulative_steps self = 0
                \<and> (\<forall>ops. cumulative_steps (run self ops) = t (run self ops)
                          \<and> (''cumulative_steps'', t (run self ops))
                             \<in> set (get_statistics (run self ops))))
       \<and> (\<forall>(self :: 'rb agent) op.
            cumulative_steps (fst (perform self op)) - cumulative_steps self
            = t (fst (perform self op)) - t self
            \<and> (case op of
                 BatchObserve batch_obs batch_reward batch_done batch_reset \<Rightarrow>
                   if training self
                   then 0 \<le> t (fst (perform self op)) - t self
                        \<and> t (fst (perform self op)) - t self \<le> int (length batch_obs)
                        \<and> (snd (perform self op) = None
                             \<longrightarrow> t (fst (perform self op)) - t self = int (length batch_obs))
                   else t (fst (perform self op)) = t self
               | _ \<Rightarrow> t (fst (perform self op)) = t self))"
proof (intro conjI allI impI)
  fix self :: "'rb agent"
  assume h: "SQIL a = Some (Inr self)"
  from SQIL_counters(1,2) [OF h] show z: "t self = 0" "cumulative_steps self = 0" .
  fix ops
  from run_counters [of self ops] z
  show c: "cumulative_steps (run self ops) = t (run self ops)" by simp
  then show "(''cumulative_steps'', t (run self ops)) \<in> set (get_statistics (run self ops))"
    by (simp add: get_statistics_def)
next
  fix self :: "'rb agent" and op
  from perform_counters [of self op]
  show "cumulative_steps (fst (perform self op)) - cumulative_steps self
            = t (fst (perform self op)) - t self"
    by simp
  from perform_counters [of self op]
  show "case op of
          BatchObserve batch_obs batch_reward batch_done batch_reset \<Rightarrow>
            if training self
            then 0 \<le> t (fst (perform self op)) - t self
                 \<and> t (fst (perform self op)) - t self \<le> int (length batch_obs)
                 \<and> (snd (perform self op) = None
                      \<longrightarrow> t (fst (perform self op)) - t self = int (length batch_obs))
            else t (fst (perform self op)) = t self
        | _ \<Rightarrow> t (fst (perform self op)) = t self"
    by simp
qed

lemma example_agent_state_simps:
  "training example_agent = True"
  "explorer example_agent = (\<lambda>step greedy q. greedy)"
  "buffer example_agent = plain_buffer"
  "replay_buffer example_agent = \<lparr>capacity = Some 10, memory = []\<rparr>"
  "replay_start_size example_agent = 2"
  "target_update_interval example_agent = 2"
  "t example_agent = 0"
  "cumulative_steps example_agent = 0"
  "optim_t example_agent = 0"
  "batch_last_obs example_agent = None"
  "batch_last_action example_agent = None"
  by (simp_all add: example_agent_def example_args_def args.extend_def agent.fields_def)


lemma greedy_action_example: "greedy_action [1, 2] = 1"
  by (simp add: greedy_action_def)

lemma perform_act_example:
  "perform example_agent (BatchAct [[]]) = (example_acted, None)"
  by (simp add: batch_act_def keep_on_error_def bind_err_def example_agent_simps
      example_agent_state_simps greedy_action_example example_acted_def Let_def)

lemma record_slot_example:
  "record_slot example_acted 0 [[]] [0] [False] [False]
   = (example_acted\<lparr>t := 1, cumulative_steps := 1,
        replay_buffer := \<lparr>capacity = Some 10,
          memory = [[\<lparr>state = [], action = 1, reward = 0, next_state = [], next_action = None,
                      is_state_terminal = False, weight = None\<rparr>]]\<rparr>\<rparr>, None)"
  by (simp add: record_slot_def count_step_def sync_when_due_def store_transition_def
      then_step_def example_acted_def example_agent_state_simps plain_buffer_def
      rbuf_append_def Let_def)

lemma example_acted_simps:
  "buffer example_acted = plain_buffer"
  "replay_start_size example_acted = 2"
  "training example_acted = True"
  "t example_acted = 0"
  "cumulative_steps example_acted = 0"
  by (simp_all add: example_acted_def example_agent_state_simps)

lemma quiet_example:
  "quiet example_agent [BatchAct [[]], BatchObserve [[]] [0] [False] [False]]"
proof -
  have "below_start_size (length [[] :: obs]) 0 example_acted [[]] [0] [False] [False]"
    by (simp add: record_slot_example example_acted_simps plain_buffer_def)
  then show ?thesis
    by (simp add: perform_act_example del: perform.simps below_start_size.simps)
qed

theorem no_update_below_start_size_witness:
  "SQIL example_args = Some (Inr example_agent)
   \<and> quiet example_agent [BatchAct [[]], BatchObserve [[]] [0] [False] [False]]
   \<and> optim_t (run example_agent [BatchAct [[]], BatchObserve [[]] [0] [False] [False]]) = 0
   \<and> update_if_necessary example_agent 0 = (example_agent, None)"
proof -
  have "int (rb_len (buffer example_agent) (replay_buffer example_agent))
        < replay_start_size example_agent"
    by (simp add: example_agent_state_simps plain_buffer_def)
  with no_update_below_start_size [of example_args]
  have 1: "update_if_necessary example_agent 0 = (example_agent, None)" by blast
  from no_update_below_start_size [of example_args] SQIL_example quiet_example
  have 2: "optim_t (run example_agent [BatchAct [[]], BatchObserve [[]] [0] [False] [False]]) = 0"
    by blast
  from 1 2 SQIL_example quiet_example show ?thesis by simp
qed

theorem counters_in_step_witness:
  "SQIL example_args = Some (Inr example_agent)
   \<and> cumulative_steps (run example_agent [BatchAct [[]], BatchObserve [[]] [0] [False] [False]])
     = t (run example_agent [BatchAct [[]], BatchObserve [[]] [0] [False] [False]])
   \<and> t (fst (perform example_acted (BatchObserve [[]] [0] [False] [False]))) = 1
   \<and> cumulative_steps (fst (perform example_acted (BatchObserve [[]] [0] [False] [False]))) = 1"
proof -
  let ?op = "BatchObserve [[]] [0] [False] [False]"
  from counters_in_step [of example_args] SQIL_example
  have 1: "cumulative_steps (run example_agent [BatchAct [[]], ?op])
           = t (run example_agent [BatchAct [[]], ?op])"
    by blast
  have start: "training example_acted" "t example_acted = 0" "cumulative_steps example_acted = 0"
    by (simp_all add: example_acted_simps)
  have "snd (perform example_acted ?op) = None"
    using record_slot_example
    by (simp add: batch_observe_def batch_observe_train_def observe_slot_def then_step_def
        start update_if_necessary_def can_start_replay_def example_acted_simps
        plain_buffer_def)
  moreover from counters_in_step [of example_args]
  have "cumulative_steps (fst (perform example_acted ?op)) - cumulative_steps example_acted
            = t (fst (perform example_acted ?op)) - t example_acted
        \<and> (snd (perform example_acted ?op) = None
             \<longrightarrow> t (fst (perform example_acted ?op)) - t example_acted = int (length [[] :: obs]))"
    using start(1) by (auto dest!: spec [of _ example_acted] spec [of _ ?op])
  ultimately have 2: "t (fst (perform example_acted ?op)) = 1
     \<and> cumulative_steps (fst (perform example_acted ?op)) = 1"
    using start by simp
  from 1 2 SQIL_example show ?thesis by simp
qed

end
